theory Spec2Isabelle
  imports Main
begin

section \<open>The useApi hook (client/src/hooks/useApi.js)\<close>

text \<open>
  The hook keeps four pieces of React state (data, loading, error, status), a ref to the
  current AbortController and a ref to a per-instance cache (a JavaScript Map). Its
  operations are getCacheKey, getCachedData, setCachedData, clearCache, execute and abort.
  execute is an async function: it runs synchronously up to an await, is suspended there,
  and is resumed when the awaited promise settles. The embedding keeps that shape: each
  synchronous stretch of the source is one function on the hook's state, and a suspended
  call is a value that records where it waits.

  What the embedding takes from the platform: Date.now() has one value during one
  synchronous stretch; what fetch and response.json() reject with is an Error object
  with a name and a message; the state setters take effect in the order they are called.
\<close>

subsection \<open>JavaScript values\<close>

text \<open>
  A JSON-serialisable value. An object is the list of its own enumerable properties in
  the order in which they were created (their keys are distinct); the order in which
  JavaScript enumerates them, and JSON.stringify writes them, is \<open>own_property_order\<close>
  below. Numbers are integers.
\<close>

datatype json =
    JNull
  | JBool bool
  | JNum int
  | JStr string
  | JArr "json list"
  | JObj "(string \<times> json) list"

text \<open>An Error object: its name and its message.\<close>

record js_error =
  err_name :: string
  err_message :: string

text \<open>Truthiness of a value, as \<open>if (v)\<close> and \<open>v && ...\<close> test it.\<close>

fun truthy :: "json \<Rightarrow> bool" where
  "truthy JNull = False"
| "truthy (JBool b) = b"
| "truthy (JNum n) = (n \<noteq> 0)"
| "truthy (JStr s) = (s \<noteq> [])"
| "truthy (JArr xs) = True"
| "truthy (JObj kvs) = True"

text \<open>A header value as Headers.get returns it: null or a string; null and the empty
  string are falsy.\<close>

definition truthy_str :: "string option \<Rightarrow> bool" where
  "truthy_str v = (case v of None \<Rightarrow> False | Some s \<Rightarrow> s \<noteq> [])"

text \<open>String.prototype.includes: the needle occurs as a contiguous substring.\<close>

fun is_prefix :: "string \<Rightarrow> string \<Rightarrow> bool" where
  "is_prefix [] ys = True"
| "is_prefix (x # xs) [] = False"
| "is_prefix (x # xs) (y # ys) = (x = y \<and> is_prefix xs ys)"

fun includes_str :: "string \<Rightarrow> string \<Rightarrow> bool" where
  "includes_str [] needle = (needle = [])"
| "includes_str (c # cs) needle = (is_prefix needle (c # cs) \<or> includes_str cs needle)"

subsection \<open>Number and string conversion\<close>

definition digit_char :: "nat \<Rightarrow> char" where
  "digit_char d = char_of (48 + d)"

fun show_nat :: "nat \<Rightarrow> string" where
  "show_nat n = (if n < 10 then [digit_char n] else show_nat (n div 10) @ [digit_char (n mod 10)])"

text \<open>Number to string, as a template literal and JSON.stringify print an integer.\<close>

definition show_int :: "int \<Rightarrow> string" where
  "show_int i = (if i < 0 then CHR ''-'' # show_nat (nat (- i)) else show_nat (nat i))"

definition hex_char :: "nat \<Rightarrow> char" where
  "hex_char d = (if d < 10 then char_of (48 + d) else char_of (87 + d))"

text \<open>
  JSON.stringify of a string (QuoteJSONString): the double quote and the backslash are
  escaped, the control characters below 0x20 are written with their short escape or as
  a four-digit \<open>\u\<close> escape, every other character is copied.
\<close>

definition quote_char :: "char \<Rightarrow> string" where
  "quote_char c =
     (if c = CHR 0x22 then [CHR 0x5C, CHR 0x22]
      else if c = CHR 0x5C then [CHR 0x5C, CHR 0x5C]
      else if c = CHR 0x08 then [CHR 0x5C, CHR ''b'']
      else if c = CHR 0x0C then [CHR 0x5C, CHR ''f'']
      else if c = CHR 0x0A then [CHR 0x5C, CHR ''n'']
      else if c = CHR 0x0D then [CHR 0x5C, CHR ''r'']
      else if c = CHR 0x09 then [CHR 0x5C, CHR ''t'']
      else if of_char c < (32 :: nat) then
        [CHR 0x5C, CHR ''u'', CHR ''0'', CHR ''0'',
         hex_char (of_char c div 16), hex_char (of_char c mod 16)]
      else [c])"

definition quote :: "string \<Rightarrow> string" where
  "quote s = CHR 0x22 # concat (map quote_char s) @ [CHR 0x22]"

fun join :: "string \<Rightarrow> string list \<Rightarrow> string" where
  "join sep [] = []"
| "join sep [x] = x"
| "join sep (x # y # ys) = x @ sep @ join sep (y # ys)"

text \<open>
  The order of an object's own property keys (OrdinaryOwnPropertyKeys): the keys that are
  array indices (the decimal numeral, without leading zeros, of a number below
  \<open>2^32 - 1\<close>) come first, in ascending numeric order, then every other string key in
  the order of its creation.
\<close>

definition is_digit :: "char \<Rightarrow> bool" where
  "is_digit c = (48 \<le> (of_char c :: int) \<and> (of_char c :: int) \<le> 57)"

definition digits_value :: "string \<Rightarrow> int" where
  "digits_value k = foldl (\<lambda>n c. 10 * n + (of_char c - 48)) 0 k"

definition is_array_index :: "string \<Rightarrow> bool" where
  "is_array_index k =
     (k \<noteq> [] \<and> list_all is_digit k \<and> (k = ''0'' \<or> hd k \<noteq> CHR ''0'') \<and>
      digits_value k < 4294967295)"

definition own_property_order :: "(string \<times> 'a) list \<Rightarrow> (string \<times> 'a) list" where
  "own_property_order ps =
     sort_key (\<lambda>p. digits_value (fst p)) (filter (\<lambda>p. is_array_index (fst p)) ps) @
     filter (\<lambda>p. \<not> is_array_index (fst p)) ps"

text \<open>JSON.stringify (no replacer, no indentation).\<close>

fun stringify :: "json \<Rightarrow> string" where
  "stringify JNull = ''null''"
| "stringify (JBool b) = (if b then ''true'' else ''false'')"
| "stringify (JNum n) = show_int n"
| "stringify (JStr s) = quote s"
| "stringify (JArr xs) = ''['' @ join '','' (map stringify xs) @ '']''"
| "stringify (JObj kvs) =
     ''{'' @ join '',''
        (map (\<lambda>(k, js). quote k @ '':'' @ js)
           (own_property_order (map (\<lambda>(k, v). (k, stringify v)) kvs))) @ ''}''"

text \<open>A headers object (string keys, string values, in the order of their creation) as
  a JSON value.\<close>

definition headers_json :: "(string \<times> string) list \<Rightarrow> json" where
  "headers_json hs = JObj (map (\<lambda>(k, v). (k, JStr v)) hs)"

text \<open>Property assignment \<open>obj[k] = v\<close> on the list of properties in creation order: an
  existing property keeps its place, a new one is added last. Map.prototype.set does the
  same to the entries of a Map.\<close>

fun obj_set :: "(string \<times> 'a) list \<Rightarrow> string \<Rightarrow> 'a \<Rightarrow> (string \<times> 'a) list" where
  "obj_set [] k v = [(k, v)]"
| "obj_set ((k', v') # ps) k v = (if k' = k then (k, v) # ps else (k', v') # obj_set ps k v)"

text \<open>Object spread \<open>{...base, ...extra}\<close>: the properties of extra are copied in the order
  in which they are enumerated.\<close>

definition spread :: "(string \<times> 'a) list \<Rightarrow> (string \<times> 'a) list \<Rightarrow> (string \<times> 'a) list" where
  "spread base extra = foldl (\<lambda>acc (k, v). obj_set acc k v) base (own_property_order extra)"

text \<open>Property lookup \<open>obj.k\<close>; None is undefined.\<close>

fun field :: "(string \<times> 'a) list \<Rightarrow> string \<Rightarrow> 'a option" where
  "field [] k = None"
| "field ((k', v) # ps) k = (if k' = k then Some v else field ps k)"

declare show_nat.simps [simp del]

subsection \<open>Options, responses and the hook's state\<close>

text \<open>
  The hook's parameters: the endpoint and the options object with its defaults filled
  in (the option \<open>method\<close> is the field \<open>http_method\<close>). The two callbacks are opaque
  functions; the model records whether each was supplied and, in the state, every call
  made to it. They are taken not to throw.
\<close>

record options =
  endpoint :: string
  http_method :: string
  body :: json
  headers :: "(string \<times> string) list"
  immediate :: bool
  cache :: bool
  cacheTime :: int
  retryCount :: int
  retryDelay :: int
  onSuccess :: bool
  onError :: bool
  skipCacheHeaders :: bool

text \<open>The defaults of the options object: \<open>useApi(endpoint)\<close> with no options given.\<close>

definition default_options :: "string \<Rightarrow> options" where
  "default_options ep =
     \<lparr>endpoint = ep, http_method = ''GET'', body = JNull, headers = [], immediate = True,
      cache = False, cacheTime = 5 * 60 * 1000, retryCount = 3, retryDelay = 1000,
      onSuccess = False, onError = False, skipCacheHeaders = False\<rparr>"

text \<open>
  What fetch resolves with, as the hook reads it (and as the test helper
  createMockResponse builds it): status, ok, the headers behind headers.get, and what
  response.json() settles to.
\<close>

record response =
  resp_status :: int
  resp_ok :: bool
  resp_headers :: "(string \<times> string) list"
  resp_json :: "js_error + json"

text \<open>createMockResponse(data, headers, status) of useApi.test.js.\<close>

definition createMockResponse :: "json \<Rightarrow> (string \<times> string) list \<Rightarrow> int \<Rightarrow> response" where
  "createMockResponse d hs st =
     \<lparr>resp_status = st, resp_ok = (st \<ge> 200 \<and> st < 300), resp_headers = hs, resp_json = Inr d\<rparr>"

datatype fetch_outcome = Resolves response | Rejects js_error

text \<open>The second argument of a fetch call.\<close>

record request =
  req_url :: string
  req_method :: string
  req_headers :: "(string \<times> string) list"
  req_body :: "string option"
  req_signal :: nat

record cache_entry =
  ce_data :: json
  ce_timestamp :: int
  ce_status :: string

text \<open>The object getCachedData returns on a hit.\<close>

record cached_result =
  cr_data :: json
  cr_status :: string
  cr_timestamp :: int
  cr_age :: int

text \<open>
  The state of one hook instance: the four useState cells, the two refs, the
  AbortControllers constructed so far (entry i is the aborted flag of controller i's
  signal), and a log of the calls made to fetch and to the two callbacks.
\<close>

record hook_state =
  data :: json
  loading :: bool
  error :: "string option"
  status :: "int option"
  abortControllerRef :: "nat option"
  cacheRef :: "(string \<times> cache_entry) list"
  controllers :: "bool list"
  fetch_calls :: "request list"
  onSuccess_calls :: "(json \<times> response) list"
  onError_calls :: "(js_error \<times> int) list"

definition initial_state :: hook_state where
  "initial_state =
     \<lparr>data = JNull, loading = False, error = None, status = None, abortControllerRef = None,
      cacheRef = [], controllers = [], fetch_calls = [], onSuccess_calls = [], onError_calls = []\<rparr>"

text \<open>How an execute call ends: it returns an object, falls off the end of the function
  (undefined), or throws, which rejects its promise.\<close>

datatype completion = Returns "(string \<times> json) list" | ReturnsUndefined | Throws js_error

text \<open>The local variables of one execute call that live across its awaits.\<close>

record call =
  requestBody :: json
  requestHeaders :: "(string \<times> string) list"
  retries :: int

text \<open>
  An execute call is either finished or suspended at one of its three awaits: the fetch
  (made with the signal of the given controller), response.json() of the response that
  fetch gave, or the backoff timer (with its delay).
\<close>

datatype progress =
    AwaitFetch nat call
  | AwaitJson nat response call
  | AwaitTimer int call
  | Done completion

subsection \<open>The cache\<close>

definition getCacheKey :: "options \<Rightarrow> string" where
  "getCacheKey cfg =
     http_method cfg @ '':'' @ endpoint cfg @ '':'' @ stringify (body cfg) @ '':'' @
     stringify (headers_json (headers cfg))"

text \<open>Map.prototype.delete.\<close>

definition map_delete :: "(string \<times> 'a) list \<Rightarrow> string \<Rightarrow> (string \<times> 'a) list" where
  "map_delete m k = filter (\<lambda>(k', v). k' \<noteq> k) m"

text \<open>getCachedData, with the value Date.now() has during the call.\<close>

definition getCachedData :: "options \<Rightarrow> int \<Rightarrow> hook_state \<Rightarrow> cached_result option \<times> hook_state" where
  "getCachedData cfg now s =
     (if \<not> cache cfg then (None, s)
      else
        let cacheKey = getCacheKey cfg in
        (case field (cacheRef s) cacheKey of
           Some cached \<Rightarrow>
             if now - ce_timestamp cached < cacheTime cfg then
               (Some \<lparr>cr_data = ce_data cached, cr_status = ''cached'',
                      cr_timestamp = ce_timestamp cached, cr_age = now - ce_timestamp cached\<rparr>, s)
             else (None, s\<lparr>cacheRef := map_delete (cacheRef s) cacheKey\<rparr>)
         | None \<Rightarrow> (None, s)))"

definition setCachedData :: "options \<Rightarrow> int \<Rightarrow> json \<Rightarrow> string \<Rightarrow> hook_state \<Rightarrow> hook_state" where
  "setCachedData cfg now d st s =
     (if \<not> cache cfg then s
      else
        let cacheKey = getCacheKey cfg in
        s\<lparr>cacheRef := obj_set (cacheRef s) cacheKey \<lparr>ce_data = d, ce_timestamp = now, ce_status = st\<rparr>\<rparr>)"

definition clearCache :: "hook_state \<Rightarrow> hook_state" where
  "clearCache s = s\<lparr>cacheRef := []\<rparr>"

subsection \<open>Classification of a response\<close>

text \<open>The if-chain of execute that sets cacheStatus from the three response headers.\<close>

definition classify :: "string option \<Rightarrow> string option \<Rightarrow> string option \<Rightarrow> string" where
  "classify cacheControl etag lastModified =
     (if truthy_str cacheControl \<and> includes_str (case cacheControl of Some v \<Rightarrow> v | None \<Rightarrow> []) ''no-cache''
        then ''no-cache''
      else if truthy_str cacheControl \<and> includes_str (case cacheControl of Some v \<Rightarrow> v | None \<Rightarrow> []) ''no-store''
        then ''no-store''
      else if truthy_str etag \<or> truthy_str lastModified then ''validated''
      else ''fresh'')"

subsection \<open>execute, one synchronous stretch at a time\<close>

definition abort :: "hook_state \<Rightarrow> hook_state" where
  "abort s =
     (case abortControllerRef s of
        None \<Rightarrow> s
      | Some c \<Rightarrow> s\<lparr>controllers := (controllers s)[c := True]\<rparr>)"

definition signal_aborted :: "hook_state \<Rightarrow> nat \<Rightarrow> bool" where
  "signal_aborted s c = (c < length (controllers s) \<and> controllers s ! c)"

definition nullable :: "string option \<Rightarrow> json" where
  "nullable v = (case v of None \<Rightarrow> JNull | Some x \<Rightarrow> JStr x)"

text \<open>The config object built at the top of the try block.\<close>

definition build_request :: "options \<Rightarrow> call \<Rightarrow> nat \<Rightarrow> request" where
  "build_request cfg c sig =
     (let hs = spread [(''Content-Type'', ''application/json'')] (requestHeaders c);
          hs' = (if http_method cfg = ''GET'' \<and> \<not> skipCacheHeaders cfg
                 then obj_set (obj_set hs ''Cache-Control'' ''max-age=300'') ''Pragma'' ''cache''
                 else hs)
      in \<lparr>req_url = endpoint cfg, req_method = http_method cfg, req_headers = hs',
          req_body = (if truthy (requestBody c) \<and> http_method cfg \<noteq> ''GET''
                      then Some (stringify (requestBody c)) else None),
          req_signal = sig\<rparr>)"

text \<open>
  The catch block. An AbortError returns the aborted object. Any other error counts
  one retry; past retryCount it is written to error, reported to onError and thrown
  again, otherwise the call waits retryDelay * retries before the next turn of the loop.
\<close>

definition catch_block :: "options \<Rightarrow> js_error \<Rightarrow> call \<Rightarrow> hook_state \<Rightarrow> progress \<times> hook_state" where
  "catch_block cfg err c s =
     (if err_name err = ''AbortError'' then
        (Done (Returns [(''data'', JNull), (''status'', JNull), (''aborted'', JBool True)]), s)
      else
        let retries' = retries c + 1 in
        if retries' > retryCount cfg then
          let s1 = s\<lparr>error := Some (err_message err)\<rparr>;
              s2 = (if onError cfg then s1\<lparr>onError_calls := onError_calls s1 @ [(err, retries')]\<rparr> else s1)
          in (Done (Throws err), s2)
        else (AwaitTimer (retryDelay cfg * retries') (c\<lparr>retries := retries'\<rparr>), s))"

text \<open>
  The head of the while loop and the try block up to \<open>await fetch\<close>. The signal is read
  from abortControllerRef at every turn. execute assigns the ref before the loop, so the
  null case (a TypeError inside the try block) does not arise from execute.
\<close>

definition loop_head :: "options \<Rightarrow> call \<Rightarrow> hook_state \<Rightarrow> progress \<times> hook_state" where
  "loop_head cfg c s =
     (if retries c \<le> retryCount cfg then
        (case abortControllerRef s of
           None \<Rightarrow>
             catch_block cfg \<lparr>err_name = ''TypeError'',
               err_message = ''Cannot read properties of null (reading 'signal')''\<rparr> c s
         | Some sig \<Rightarrow>
             (AwaitFetch sig c, s\<lparr>fetch_calls := fetch_calls s @ [build_request cfg c sig]\<rparr>))
      else (Done ReturnsUndefined, s))"

text \<open>From the settling of fetch to the next await.\<close>

definition on_fetch :: "options \<Rightarrow> fetch_outcome \<Rightarrow> nat \<Rightarrow> call \<Rightarrow> hook_state \<Rightarrow> progress \<times> hook_state" where
  "on_fetch cfg outcome sig c s =
     (case outcome of
        Rejects err \<Rightarrow> catch_block cfg err c s
      | Resolves r \<Rightarrow>
          let s1 = s\<lparr>status := Some (resp_status r)\<rparr> in
          if \<not> resp_ok r then
            catch_block cfg \<lparr>err_name = ''Error'',
              err_message = ''HTTP error! status: '' @ show_int (resp_status r)\<rparr> c s1
          else (AwaitJson sig r c, s1))"

text \<open>From the settling of response.json() to the return, with the value of Date.now()
  in setCachedData.\<close>

definition on_json :: "options \<Rightarrow> int \<Rightarrow> js_error + json \<Rightarrow> response \<Rightarrow> call \<Rightarrow> hook_state \<Rightarrow> progress \<times> hook_state" where
  "on_json cfg now settled r c s =
     (case settled of
        Inl err \<Rightarrow> catch_block cfg err c s
      | Inr responseData \<Rightarrow>
          let cacheControl = field (resp_headers r) ''Cache-Control'';
              etag = field (resp_headers r) ''ETag'';
              lastModified = field (resp_headers r) ''Last-Modified'';
              s1 = s\<lparr>data := responseData\<rparr>;
              cacheStatus = classify cacheControl etag lastModified;
              s2 = setCachedData cfg now responseData cacheStatus s1;
              s3 = (if onSuccess cfg then s2\<lparr>onSuccess_calls := onSuccess_calls s2 @ [(responseData, r)]\<rparr> else s2)
          in (Done (Returns
                [(''data'', responseData),
                 (''status'', JNum (resp_status r)),
                 (''fromCache'', JBool False),
                 (''cacheStatus'', JStr cacheStatus),
                 (''cacheHeaders'', JObj [(''cacheControl'', nullable cacheControl),
                                         (''etag'', nullable etag),
                                         (''lastModified'', nullable lastModified)])]), s3))"

text \<open>
  The start of execute(requestBody, requestHeaders), up to its first await or its
  return on a cache hit. An argument that is not given (None) takes the option's value.
\<close>

definition execute_begin :: "options \<Rightarrow> int \<Rightarrow> json option \<Rightarrow> (string \<times> string) list option \<Rightarrow> hook_state \<Rightarrow> progress \<times> hook_state" where
  "execute_begin cfg now rb rh s =
     (case getCachedData cfg now s of
        (Some cachedResult, s0) \<Rightarrow>
          (Done (Returns
             [(''data'', cr_data cachedResult),
              (''status'', JNum 200),
              (''fromCache'', JBool True),
              (''cacheStatus'', JStr (cr_status cachedResult)),
              (''cacheAge'', JNum (cr_age cachedResult))]),
           s0\<lparr>data := cr_data cachedResult, status := Some 200\<rparr>)
      | (None, s0) \<Rightarrow>
          let s1 = s0\<lparr>loading := True, error := None\<rparr>;
              s2 = s1\<lparr>controllers := controllers s1 @ [False],
                      abortControllerRef := Some (length (controllers s1))\<rparr>
          in loop_head cfg
               \<lparr>requestBody = (case rb of None \<Rightarrow> body cfg | Some b \<Rightarrow> b),
                requestHeaders = (case rh of None \<Rightarrow> headers cfg | Some h \<Rightarrow> h),
                retries = 0\<rparr> s2)"

subsection \<open>The platform: fetch and its signal\<close>

definition abortError :: js_error where
  "abortError = \<lparr>err_name = ''AbortError'', err_message = ''The operation was aborted.''\<rparr>"

text \<open>
  The contract of fetch with an AbortSignal: once the signal is aborted, the pending
  fetch, or the pending read of its body, rejects with an AbortError; otherwise it
  settles as the network decides.
\<close>

definition fetch_settles :: "hook_state \<Rightarrow> nat \<Rightarrow> fetch_outcome \<Rightarrow> fetch_outcome" where
  "fetch_settles s sig outcome = (if signal_aborted s sig then Rejects abortError else outcome)"

definition json_settles :: "hook_state \<Rightarrow> nat \<Rightarrow> response \<Rightarrow> js_error + json" where
  "json_settles s sig r = (if signal_aborted s sig then Inl abortError else resp_json r)"

text \<open>
  Resuming a suspended call when what it awaits settles. The network supplies the
  outcome of the fetch and the clock the value of Date.now().
\<close>

fun resume :: "options \<Rightarrow> fetch_outcome \<Rightarrow> int \<Rightarrow> progress \<Rightarrow> hook_state \<Rightarrow> progress \<times> hook_state" where
  "resume cfg outcome now (AwaitFetch sig c) s = on_fetch cfg (fetch_settles s sig outcome) sig c s"
| "resume cfg outcome now (AwaitJson sig r c) s = on_json cfg now (json_settles s sig r) r c s"
| "resume cfg outcome now (AwaitTimer d c) s = loop_head cfg c s"
| "resume cfg outcome now (Done r) s = (Done r, s)"

subsection \<open>Awaiting one execute call\<close>

text \<open>
  \<open>await execute(...)\<close> with nothing else happening in between: the call is resumed
  until it completes. The environment gives, for the attempt made with retries = k, the
  outcome of its fetch and the value of Date.now() when its body has been read.
\<close>

definition rank :: "options \<Rightarrow> progress \<Rightarrow> nat" where
  "rank cfg p =
     (case p of
        Done r \<Rightarrow> 0
      | AwaitJson sig r c \<Rightarrow> 3 * nat (retryCount cfg + 1 - retries c) + 1
      | AwaitFetch sig c \<Rightarrow> 3 * nat (retryCount cfg + 1 - retries c) + 2
      | AwaitTimer d c \<Rightarrow> 3 * nat (retryCount cfg + 1 - retries c) + 3)"

definition retries_of :: "progress \<Rightarrow> int" where
  "retries_of p =
     (case p of
        Done r \<Rightarrow> 0
      | AwaitJson sig r c \<Rightarrow> retries c
      | AwaitFetch sig c \<Rightarrow> retries c
      | AwaitTimer d c \<Rightarrow> retries c)"

lemma catch_block_rank:
  "catch_block cfg err c s = (p, s') \<Longrightarrow> rank cfg p \<le> 3 * nat (retryCount cfg + 1 - retries c)"
  by (auto simp: catch_block_def rank_def Let_def split: if_splits)

lemma resume_rank:
  assumes "resume cfg outcome now p s = (p', s')" and "\<forall>r. p \<noteq> Done r"
  shows "rank cfg p' < rank cfg p"
proof (cases p)
  case (AwaitFetch sig c)
  show ?thesis
  proof (cases "fetch_settles s sig outcome")
    case (Rejects err)
    with assms(1) AwaitFetch have "catch_block cfg err c s = (p', s')"
      by (simp add: on_fetch_def)
    from catch_block_rank [OF this] show ?thesis
      by (simp add: AwaitFetch rank_def)
  next
    case (Resolves r)
    show ?thesis
    proof (cases "resp_ok r")
      case True
      with assms(1) AwaitFetch Resolves show ?thesis
        by (auto simp: on_fetch_def Let_def rank_def)
    next
      case False
      with assms(1) AwaitFetch Resolves obtain e s1 where "catch_block cfg e c s1 = (p', s')"
        by (auto simp: on_fetch_def Let_def)
      from catch_block_rank [OF this] show ?thesis
        by (simp add: AwaitFetch rank_def)
    qed
  qed
next
  case (AwaitJson sig r c)
  show ?thesis
  proof (cases "json_settles s sig r")
    case (Inl err)
    with assms(1) AwaitJson have "catch_block cfg err c s = (p', s')"
      by (simp add: on_json_def)
    from catch_block_rank [OF this] show ?thesis
      by (simp add: AwaitJson rank_def)
  next
    case (Inr d)
    with assms(1) AwaitJson show ?thesis
      by (auto simp: on_json_def Let_def rank_def)
  qed
next
  case (AwaitTimer d c)
  show ?thesis
  proof (cases "retries c \<le> retryCount cfg")
    case False
    with assms(1) AwaitTimer show ?thesis
      by (auto simp: loop_head_def rank_def)
  next
    case True
    show ?thesis
    proof (cases "abortControllerRef s")
      case None
      with assms(1) AwaitTimer True obtain e where "catch_block cfg e c s = (p', s')"
        by (auto simp: loop_head_def)
      from catch_block_rank [OF this] show ?thesis
        by (simp add: AwaitTimer rank_def)
    next
      case (Some sig)
      with assms(1) AwaitTimer True show ?thesis
        by (auto simp: loop_head_def rank_def)
    qed
  qed
next
  case (Done r)
  with assms(2) show ?thesis by simp
qed

lemma resume_decreases:
  assumes "(p', s') = resume cfg outcome now p s" and "\<forall>r. p \<noteq> Done r"
  shows "((cfg, env, p', s'), (cfg, env, p, s)) \<in> measure (\<lambda>(cfg, env, p, s). rank cfg p)"
  using resume_rank [OF assms(1) [symmetric] assms(2)] by simp

function run :: "options \<Rightarrow> (int \<Rightarrow> fetch_outcome \<times> int) \<Rightarrow> progress \<Rightarrow> hook_state \<Rightarrow> completion \<times> hook_state" where
  "run cfg env p s =
     (case p of
        Done r \<Rightarrow> (r, s)
      | _ \<Rightarrow>
          (case resume cfg (fst (env (retries_of p))) (snd (env (retries_of p))) p s of
             (p', s') \<Rightarrow> run cfg env p' s'))"
  by pat_completeness auto
termination
  apply (relation "measure (\<lambda>(cfg, env, p, s). rank cfg p)")
     apply simp
    apply (erule resume_decreases, simp)+
  done

declare run.simps [simp del]

definition execute :: "options \<Rightarrow> (int \<Rightarrow> fetch_outcome \<times> int) \<Rightarrow> int \<Rightarrow> json option \<Rightarrow> (string \<times> string) list option \<Rightarrow> hook_state \<Rightarrow> completion \<times> hook_state" where
  "execute cfg env now rb rh s =
     (case execute_begin cfg now rb rh s of (p, s') \<Rightarrow> run cfg env p s')"

subsection \<open>Overlapping calls\<close>

text \<open>
  Everything runs on one thread, so several execute calls of one hook instance overlap
  only at their awaits. An event is a caller starting execute, one suspended call being
  resumed (the call's index in start order, with the network's outcome and the clock),
  abort, or clearCache. A call that waits for its backoff timer is resumed by the timer
  and the outcome in the event plays no part. The effect that runs on mount calls execute() when immediate is
  set, and the effects' cleanups do what abort does; refetch is execute().
\<close>

datatype event =
    Execute "json option" "(string \<times> string) list option" int
  | Settle nat fetch_outcome int
  | Abort
  | ClearCache

fun step :: "options \<Rightarrow> hook_state \<times> progress list \<Rightarrow> event \<Rightarrow> hook_state \<times> progress list" where
  "step cfg (s, ps) (Execute rb rh now) =
     (case execute_begin cfg now rb rh s of (p, s') \<Rightarrow> (s', ps @ [p]))"
| "step cfg (s, ps) (Settle i outcome now) =
     (if i < length ps then
        (case resume cfg outcome now (ps ! i) s of (p, s') \<Rightarrow> (s', ps[i := p]))
      else (s, ps))"
| "step cfg (s, ps) Abort = (abort s, ps)"
| "step cfg (s, ps) ClearCache = (clearCache s, ps)"

definition run_events :: "options \<Rightarrow> event list \<Rightarrow> hook_state \<times> progress list" where
  "run_events cfg evs = foldl (step cfg) (initial_state, []) evs"

section \<open>Notions used in the statements\<close>

text \<open>
  RequestState: the four observable cells of the hook.
\<close>

definition request_state :: "hook_state \<Rightarrow> json \<times> bool \<times> string option \<times> int option" where
  "request_state s = (data s, loading s, error s, status s)"

text \<open>
  A fetch outcome that the retry policy treats as a transient failure: a rejection
  other than an AbortError (a transport failure), or a response that is not ok (a
  status outside 200..299); and the error the catch block then sees.
\<close>

definition transient :: "fetch_outcome \<Rightarrow> bool" where
  "transient out = (case out of Rejects e \<Rightarrow> err_name e \<noteq> ''AbortError'' | Resolves r \<Rightarrow> \<not> resp_ok r)"

definition failure_error :: "fetch_outcome \<Rightarrow> js_error" where
  "failure_error out =
     (case out of
        Rejects e \<Rightarrow> e
      | Resolves r \<Rightarrow> \<lparr>err_name = ''Error'',
          err_message = ''HTTP error! status: '' @ show_int (resp_status r)\<rparr>)"

text \<open>
  What holds of a call that went to the network and is awaited alone: its controller is
  the current one and has not been aborted, its retry counter is within the budget, the
  number of fetch calls made since the call began (when there were n0) follows the
  counter, and a response whose body is being read came from this attempt's fetch.
\<close>

definition in_flight :: "options \<Rightarrow> (int \<Rightarrow> fetch_outcome \<times> int) \<Rightarrow> nat \<Rightarrow> nat \<Rightarrow> progress \<Rightarrow> hook_state \<Rightarrow> bool" where
  "in_flight cfg env n0 sig0 p s =
     (abortControllerRef s = Some sig0 \<and> \<not> signal_aborted s sig0 \<and>
      (case p of
         Done r \<Rightarrow> True
       | AwaitFetch sig c \<Rightarrow> sig = sig0 \<and> 0 \<le> retries c \<and> retries c \<le> retryCount cfg \<and>
           int (length (fetch_calls s)) = int n0 + retries c + 1
       | AwaitJson sig r c \<Rightarrow> sig = sig0 \<and> 0 \<le> retries c \<and> retries c \<le> retryCount cfg \<and>
           int (length (fetch_calls s)) = int n0 + retries c + 1 \<and>
           fst (env (retries c)) = Resolves r \<and> resp_ok r
       | AwaitTimer d c \<Rightarrow> 0 \<le> retries c \<and> retries c \<le> retryCount cfg \<and>
           int (length (fetch_calls s)) = int n0 + retries c))"

text \<open>
  What a resumed call leaves alone until the step that completes it: everything but
  status and the log of fetch calls.
\<close>

definition quiet :: "hook_state \<Rightarrow> hook_state \<Rightarrow> bool" where
  "quiet s t =
     (data t = data s \<and> loading t = loading s \<and> error t = error s \<and>
      cacheRef t = cacheRef s \<and> controllers t = controllers s \<and>
      abortControllerRef t = abortControllerRef s \<and>
      onSuccess_calls t = onSuccess_calls s \<and> onError_calls t = onError_calls s)"

text \<open>
  How a call that went to the network ends: the object of a successful response, the
  aborted object, or a thrown error whose message is in the error cell.
\<close>

definition settled :: "completion \<Rightarrow> hook_state \<Rightarrow> bool" where
  "settled c s' =
     ((\<exists>res. c = Returns res \<and>
         map fst res = [''data'', ''status'', ''fromCache'', ''cacheStatus'', ''cacheHeaders''] \<and>
         field res ''fromCache'' = Some (JBool False) \<and> field res ''data'' = Some (data s')) \<or>
      c = Returns [(''data'', JNull), (''status'', JNull), (''aborted'', JBool True)] \<or>
      (\<exists>e. c = Throws e \<and> error s' = Some (err_message e)))"

text \<open>
  One entry of a serialised headers object.
\<close>

definition entry :: "string \<times> string \<Rightarrow> string" where
  "entry kv = quote (fst kv) @ '':'' @ stringify (JStr (snd kv))"

subsection \<open>Example inputs\<close>

definition posts :: json where
  "posts = JObj [(''posts'', JArr [])]"

text \<open>
  An environment in which every attempt meets the same outcome at the same clock value.
\<close>

definition always :: "fetch_outcome \<Rightarrow> int \<Rightarrow> int \<Rightarrow> fetch_outcome \<times> int" where
  "always outcome t k = (outcome, t)"


text \<open>
  The options of the posts list in pages/Home.js: caching on, an onError callback.
\<close>

definition home_options :: options where
  "home_options = (default_options ''/api/posts'')\<lparr>cache := True, onError := True\<rparr>"

text \<open>
  Two execute calls started one after the other, both still waiting for their fetch.
\<close>

definition two_in_flight :: "hook_state \<times> progress list" where
  "two_in_flight =
     run_events (default_options ''/api/posts'') [Execute None None 0, Execute None None 1]"

text \<open>
  A call whose first attempt got status 500 and that waits for its backoff timer; abort()
  signalled its controller, and then a second call was started. Then the timer has fired
  (the outcome in that event plays no part) and the first call's second attempt is
  pending; then that attempt has resolved with the posts and its body is being read.
\<close>

definition retry_after_abort :: "hook_state \<times> progress list" where
  "retry_after_abort =
     run_events (default_options ''/api/posts'')
       [Execute None None 0, Settle 0 (Resolves (createMockResponse (JObj []) [] 500)) 5, Abort,
        Execute None None 6]"

definition retry_pending :: "hook_state \<times> progress list" where
  "retry_pending =
     step (default_options ''/api/posts'') retry_after_abort (Settle 0 (Rejects abortError) 1005)"

definition retry_reading :: "hook_state \<times> progress list" where
  "retry_reading =
     step (default_options ''/api/posts'') retry_pending
       (Settle 0 (Resolves (createMockResponse posts [] 200)) 1010)"

text \<open>
  The hook's state after one execute call that got the posts at clock value 1000.
\<close>

definition after_first_call :: hook_state where
  "after_first_call =
     snd (execute home_options (always (Resolves (createMockResponse posts [] 200)) 1000) 0 None None
            initial_state)"

text \<open>
  Two overlapping calls with no retries: the first gets the posts and stores them, the
  second, started before the first had stored anything, then fails with status 500.
\<close>

definition failed_after_cached :: hook_state where
  "failed_after_cached =
     fst (run_events (home_options\<lparr>retryCount := 0\<rparr>)
       [Execute None None 0, Execute None None 1,
        Settle 0 (Resolves (createMockResponse posts [] 200)) 5,
        Settle 0 (Resolves (createMockResponse posts [] 200)) 6,
        Settle 1 (Resolves (createMockResponse (JObj []) [] 500)) 7])"

text \<open>
  The same two headers, inserted in the two possible orders.
\<close>

definition accept_then_lang :: "(string \<times> string) list" where
  "accept_then_lang = [(''Accept'', ''application/json''), (''Accept-Language'', ''en'')]"

definition lang_then_accept :: "(string \<times> string) list" where
  "lang_then_accept = [(''Accept-Language'', ''en''), (''Accept'', ''application/json'')]"

section \<open>Lemmas about awaiting a call\<close>

lemma run_Done: "run cfg env (Done r) s = (r, s)"
  by (subst run.simps) simp

lemma run_step:
  assumes "\<forall>r. p \<noteq> Done r"
    and "resume cfg (fst (env (retries_of p))) (snd (env (retries_of p))) p s = (p', s')"
  shows "run cfg env p s = run cfg env p' s'"
  using assms by (subst run.simps) (cases p; simp)

lemma run_induct [case_names Done Step]:
  assumes base: "\<And>r s. P (Done r) s"
    and stp: "\<And>p s p' s'. \<forall>r. p \<noteq> Done r \<Longrightarrow>
        resume cfg (fst (env (retries_of p))) (snd (env (retries_of p))) p s = (p', s') \<Longrightarrow>
        P p' s' \<Longrightarrow> P p s"
  shows "P p s"
proof (induction "rank cfg p" arbitrary: p s rule: less_induct)
  case (less p s)
  show ?case
  proof (cases "\<exists>r. p = Done r")
    case True
    then show ?thesis using base by auto
  next
    case False
    obtain p' s' where r: "resume cfg (fst (env (retries_of p))) (snd (env (retries_of p))) p s = (p', s')"
      by (cases "resume cfg (fst (env (retries_of p))) (snd (env (retries_of p))) p s") auto
    from False have nd: "\<forall>r. p \<noteq> Done r" by simp
    from resume_rank [OF r nd] have "P p' s'" by (rule less)
    with nd r show ?thesis by (rule stp)
  qed
qed

lemmas handler_defs = on_fetch_def on_json_def loop_head_def catch_block_def
  fetch_settles_def json_settles_def setCachedData_def

lemma resume_cacheRef_disabled:
  assumes "\<not> cache cfg" and "resume cfg out now p s = (p', s')"
  shows "cacheRef s' = cacheRef s"
  using assms
  by (cases p) (auto simp: handler_defs Let_def split: if_splits fetch_outcome.splits sum.splits option.splits)

lemma run_cacheRef_disabled:
  assumes "\<not> cache cfg"
  shows "cacheRef (snd (run cfg env p s)) = cacheRef s"
proof (induction p s rule: run_induct [where cfg = cfg and env = env])
  case (Done r s)
  then show ?case by (simp add: run_Done)
next
  case (Step p s p' s')
  from run_step [where cfg = cfg and env = env, OF Step(1,2)] Step(3) resume_cacheRef_disabled [OF assms Step(2)]
  show ?case by simp
qed

lemma quiet_refl: "quiet s s"
  by (simp add: quiet_def)

lemma quiet_trans: "quiet s t \<Longrightarrow> quiet t u \<Longrightarrow> quiet s u"
  by (simp add: quiet_def)

lemma resume_in_flight:
  assumes "in_flight cfg env n0 sig0 p s"
    and "resume cfg (fst (env (retries_of p))) now p s = (p', s')"
  shows "in_flight cfg env n0 sig0 p' s'"
  using assms
  by (cases p)
    (auto simp: in_flight_def handler_defs signal_aborted_def retries_of_def Let_def
      split: if_splits fetch_outcome.splits sum.splits option.splits)

lemma resume_quiet:
  assumes "resume cfg out now p s = (p', s')" and "\<forall>r. p' \<noteq> Done r"
  shows "quiet s s'"
  using assms
  by (cases p)
    (auto simp: quiet_def handler_defs Let_def
      split: if_splits fetch_outcome.splits sum.splits option.splits)

lemma run_last_step:
  assumes "in_flight cfg env n0 sig0 p s" and "\<forall>r. p \<noteq> Done r" and "run cfg env p s = (c, s')"
  shows "\<exists>q t. in_flight cfg env n0 sig0 q t \<and> (\<forall>r. q \<noteq> Done r) \<and> quiet s t \<and>
           resume cfg (fst (env (retries_of q))) (snd (env (retries_of q))) q t = (Done c, s')"
  using assms
proof (induction p s rule: run_induct [where cfg = cfg and env = env])
  case (Done r s)
  then show ?case by simp
next
  case (Step p s p1 s1)
  note r = run_step [where cfg = cfg and env = env, OF Step(1,2)]
  show ?case
  proof (cases "\<exists>r. p1 = Done r")
    case True
    then obtain r where p1: "p1 = Done r" by blast
    with r Step(6) have "r = c" "s1 = s'" by (simp_all add: run_Done)
    with Step(1,2,4) p1 quiet_refl [of s] show ?thesis by blast
  next
    case False
    then have nd: "\<forall>r. p1 \<noteq> Done r" by simp
    from Step(3) [OF resume_in_flight [OF Step(4) Step(2)] nd] r Step(6)
    obtain q t where q: "in_flight cfg env n0 sig0 q t" "\<forall>r. q \<noteq> Done r" "quiet s1 t"
      "resume cfg (fst (env (retries_of q))) (snd (env (retries_of q))) q t = (Done c, s')"
      by auto
    from resume_quiet [OF Step(2) nd] q(3) have "quiet s t" by (rule quiet_trans)
    with q show ?thesis by blast
  qed
qed

subsection \<open>The cache and the start of execute\<close>

lemma field_obj_set_same: "field (obj_set m k v) k = Some v"
  by (induction m) auto

lemma field_obj_set_other: "k' \<noteq> k \<Longrightarrow> field (obj_set m k v) k' = field m k'"
  by (induction m) auto

lemma field_map_delete_same: "field (map_delete m k) k = None"
  by (induction m) (auto simp: map_delete_def)

lemma field_map_delete_other: "k' \<noteq> k \<Longrightarrow> field (map_delete m k) k' = field m k'"
  by (induction m) (auto simp: map_delete_def)

lemma getCachedData_Some:
  assumes "getCachedData cfg now s = (Some cr, s0)"
  shows "s0 = s \<and> cache cfg \<and>
         (\<exists>e. field (cacheRef s) (getCacheKey cfg) = Some e \<and> now - ce_timestamp e < cacheTime cfg \<and>
              cr = \<lparr>cr_data = ce_data e, cr_status = ''cached'', cr_timestamp = ce_timestamp e,
                     cr_age = now - ce_timestamp e\<rparr>)"
  using assms by (auto simp: getCachedData_def Let_def split: if_splits option.splits)

lemma getCachedData_None:
  assumes "getCachedData cfg now s = (None, s0)"
  shows "s0 = s \<or> (cache cfg \<and> s0 = s\<lparr>cacheRef := map_delete (cacheRef s) (getCacheKey cfg)\<rparr> \<and>
           (\<exists>e. field (cacheRef s) (getCacheKey cfg) = Some e \<and> \<not> now - ce_timestamp e < cacheTime cfg))"
  using assms by (auto simp: getCachedData_def Let_def split: if_splits option.splits)

lemma getCachedData_hit:
  assumes "cache cfg" and "field (cacheRef s) (getCacheKey cfg) = Some e"
    and "now - ce_timestamp e < cacheTime cfg"
  shows "getCachedData cfg now s =
           (Some \<lparr>cr_data = ce_data e, cr_status = ''cached'', cr_timestamp = ce_timestamp e,
                  cr_age = now - ce_timestamp e\<rparr>, s)"
  using assms by (simp add: getCachedData_def)

lemma execute_hit:
  assumes "getCachedData cfg now s = (Some cr, s0)"
  shows "execute cfg env now rb rh s =
           (Returns [(''data'', cr_data cr), (''status'', JNum 200), (''fromCache'', JBool True),
                     (''cacheStatus'', JStr (cr_status cr)), (''cacheAge'', JNum (cr_age cr))],
            s\<lparr>data := cr_data cr, status := Some 200\<rparr>)"
  using getCachedData_Some [OF assms] assms
  by (simp add: execute_def execute_begin_def run_Done)

lemma execute_begin_miss:
  assumes "getCachedData cfg now s = (None, s0)" and "0 \<le> retryCount cfg"
  shows "\<exists>c s1. execute_begin cfg now rb rh s = (AwaitFetch (length (controllers s)) c, s1) \<and>
           retries c = 0 \<and>
           in_flight cfg env (length (fetch_calls s)) (length (controllers s))
             (AwaitFetch (length (controllers s)) c) s1 \<and>
           loading s1 \<and> error s1 = None \<and> data s1 = data s \<and> status s1 = status s \<and>
           cacheRef s1 = cacheRef s0 \<and> onSuccess_calls s1 = onSuccess_calls s \<and>
           onError_calls s1 = onError_calls s \<and> length (fetch_calls s1) = length (fetch_calls s) + 1"
  using assms getCachedData_None [OF assms(1)]
  by (auto simp: execute_begin_def loop_head_def in_flight_def signal_aborted_def nth_append)

lemma execute_no_budget:
  assumes "getCachedData cfg now s = (None, s0)" and "retryCount cfg < 0"
  shows "fst (execute cfg env now rb rh s) = ReturnsUndefined"
  using assms by (simp add: execute_def execute_begin_def loop_head_def run_Done)

subsection \<open>The step that completes a call\<close>

lemma resume_settled:
  assumes "in_flight cfg env n0 sig0 p s" and "\<forall>r. p \<noteq> Done r"
    and "resume cfg out now p s = (Done c, s')"
  shows "settled c s'"
  using assms
  by (cases p)
    (auto simp: in_flight_def settled_def handler_defs Let_def
      split: if_splits fetch_outcome.splits sum.splits option.splits)

lemma resume_success:
  assumes "in_flight cfg env n0 sig0 q t" and "\<forall>r. q \<noteq> Done r"
    and "resume cfg (fst (env (retries_of q))) now q t = (Done (Returns res), s')"
    and "field res ''fromCache'' = Some (JBool False)"
  shows "\<exists>r d. fst (env (retries_of q)) = Resolves r \<and> resp_ok r \<and> resp_json r = Inr d \<and>
           field res ''data'' = Some d \<and>
           field res ''status'' = Some (JNum (resp_status r)) \<and>
           field res ''cacheStatus'' = Some (JStr (classify (field (resp_headers r) ''Cache-Control'')
               (field (resp_headers r) ''ETag'') (field (resp_headers r) ''Last-Modified''))) \<and>
           data s' = d \<and> error s' = error t \<and> loading s' = loading t \<and>
           onError_calls s' = onError_calls t \<and>
           onSuccess_calls s' = onSuccess_calls t @ (if onSuccess cfg then [(d, r)] else []) \<and>
           fetch_calls s' = fetch_calls t \<and>
           int (length (fetch_calls t)) = int n0 + retries_of q + 1 \<and>
           cacheRef s' =
             (if cache cfg then obj_set (cacheRef t) (getCacheKey cfg)
                \<lparr>ce_data = d, ce_timestamp = now,
                 ce_status = classify (field (resp_headers r) ''Cache-Control'')
                   (field (resp_headers r) ''ETag'') (field (resp_headers r) ''Last-Modified'')\<rparr>
              else cacheRef t)"
  using assms
  by (cases q)
    (auto simp: in_flight_def handler_defs retries_of_def Let_def
      split: if_splits fetch_outcome.splits sum.splits option.splits)

lemma resume_throws:
  assumes "in_flight cfg env n0 sig0 q t" and "\<forall>r. q \<noteq> Done r"
    and "resume cfg (fst (env (retries_of q))) now q t = (Done (Throws e), s')"
  shows "retries_of q = retryCount cfg \<and>
         int (length (fetch_calls s')) = int n0 + retryCount cfg + 1 \<and>
         error s' = Some (err_message e) \<and>
         onError_calls s' = onError_calls t @ (if onError cfg then [(e, retryCount cfg + 1)] else []) \<and>
         onSuccess_calls s' = onSuccess_calls t \<and>
         cacheRef s' = cacheRef t \<and> data s' = data t \<and> loading s' = loading t"
  using assms
  by (cases q)
    (auto simp: in_flight_def handler_defs retries_of_def Let_def
      split: if_splits fetch_outcome.splits sum.splits option.splits)

lemma resume_returns_aborted:
  assumes "in_flight cfg env n0 sig0 q t" and "\<forall>r. q \<noteq> Done r"
    and "resume cfg (fst (env (retries_of q))) now q t =
           (Done (Returns [(''data'', JNull), (''status'', JNull), (''aborted'', JBool True)]), s')"
  shows "s' = t"
  using assms
  by (cases q)
    (auto simp: in_flight_def handler_defs retries_of_def Let_def
      split: if_splits fetch_outcome.splits sum.splits option.splits)

lemma resume_transient:
  assumes "in_flight cfg env n0 sig0 q t" and "\<forall>r. q \<noteq> Done r"
    and "transient (fst (env (retries_of q)))"
    and "resume cfg (fst (env (retries_of q))) now q t = (Done c, s')"
  shows "c = Throws (failure_error (fst (env (retryCount cfg))))"
  using assms
  by (cases q)
    (auto simp: in_flight_def handler_defs retries_of_def transient_def failure_error_def Let_def
      split: if_splits fetch_outcome.splits sum.splits option.splits)

lemma in_flight_retries:
  assumes "in_flight cfg env n0 sig0 q t" and "\<forall>r. q \<noteq> Done r"
  shows "0 \<le> retries_of q \<and> retries_of q \<le> retryCount cfg"
  using assms by (cases q) (auto simp: in_flight_def retries_of_def)

lemma resume_fetch_count:
  assumes "in_flight cfg env n0 sig0 q t" and "\<forall>r. q \<noteq> Done r"
    and "resume cfg out now q t = (Done c, s')"
  shows "int (length (fetch_calls s')) = int n0 + retries_of q + 1"
  using assms
  by (cases q)
    (auto simp: in_flight_def handler_defs retries_of_def Let_def
      split: if_splits fetch_outcome.splits sum.splits option.splits)

lemma execute_miss_last_step:
  assumes "getCachedData cfg now s = (None, s0)" and "0 \<le> retryCount cfg"
    and "execute cfg env now rb rh s = (c, s')"
  shows "\<exists>q t. in_flight cfg env (length (fetch_calls s)) (length (controllers s)) q t \<and>
           (\<forall>r. q \<noteq> Done r) \<and>
           loading t \<and> error t = None \<and> data t = data s \<and> cacheRef t = cacheRef s0 \<and>
           onSuccess_calls t = onSuccess_calls s \<and> onError_calls t = onError_calls s \<and>
           resume cfg (fst (env (retries_of q))) (snd (env (retries_of q))) q t = (Done c, s')"
proof -
  from execute_begin_miss [OF assms(1,2), where env = env and rb = rb and rh = rh]
  obtain c0 s1 where b: "execute_begin cfg now rb rh s = (AwaitFetch (length (controllers s)) c0, s1)"
    "in_flight cfg env (length (fetch_calls s)) (length (controllers s))
             (AwaitFetch (length (controllers s)) c0) s1"
    "loading s1" "error s1 = None" "data s1 = data s" "cacheRef s1 = cacheRef s0"
    "onSuccess_calls s1 = onSuccess_calls s" "onError_calls s1 = onError_calls s"
    by blast
  from b(1) assms(3) have "run cfg env (AwaitFetch (length (controllers s)) c0) s1 = (c, s')"
    by (simp add: execute_def)
  from run_last_step [OF b(2) _ this]
  obtain q t where q: "in_flight cfg env (length (fetch_calls s)) (length (controllers s)) q t"
    "\<forall>r. q \<noteq> Done r" "quiet s1 t"
    "resume cfg (fst (env (retries_of q))) (snd (env (retries_of q))) q t = (Done c, s')"
    by auto
  from q(3) b(3-8) have "loading t \<and> error t = None \<and> data t = data s \<and> cacheRef t = cacheRef s0 \<and>
           onSuccess_calls t = onSuccess_calls s \<and> onError_calls t = onError_calls s"
    by (simp add: quiet_def)
  with q show ?thesis by blast
qed

lemma execute_first_success:
  assumes g: "getCachedData cfg now s = (None, s0)" and budget: "0 \<le> retryCount cfg"
    and ok: "fst (env 0) = Resolves r" "resp_ok r" "resp_json r = Inr d"
  shows "\<exists>res s'. execute cfg env now rb rh s = (Returns res, s') \<and>
           field res ''fromCache'' = Some (JBool False) \<and> field res ''data'' = Some d \<and>
           length (fetch_calls s') = length (fetch_calls s) + 1"
proof -
  from execute_begin_miss [OF g budget, where env = env and rb = rb and rh = rh]
  obtain c0 s1 where b: "execute_begin cfg now rb rh s = (AwaitFetch (length (controllers s)) c0, s1)"
    "retries c0 = 0"
    "in_flight cfg env (length (fetch_calls s)) (length (controllers s))
             (AwaitFetch (length (controllers s)) c0) s1"
    "length (fetch_calls s1) = length (fetch_calls s) + 1"
    by blast
  let ?sig = "length (controllers s)"
  from b(3) have na: "\<not> signal_aborted s1 ?sig" by (simp add: in_flight_def)
  let ?s2 = "s1\<lparr>status := Some (resp_status r)\<rparr>"
  have r1: "resume cfg (fst (env (retries_of (AwaitFetch ?sig c0)))) (snd (env (retries_of (AwaitFetch ?sig c0))))
              (AwaitFetch ?sig c0) s1 = (AwaitJson ?sig r c0, ?s2)"
    using na ok b(2) by (simp add: retries_of_def on_fetch_def fetch_settles_def Let_def)
  have na2: "\<not> signal_aborted ?s2 ?sig" using na by (simp add: signal_aborted_def)
  obtain p3 s3 where r2: "resume cfg (fst (env (retries_of (AwaitJson ?sig r c0)))) (snd (env (retries_of (AwaitJson ?sig r c0))))
              (AwaitJson ?sig r c0) ?s2 = (p3, s3)"
    by (cases "resume cfg (fst (env (retries_of (AwaitJson ?sig r c0)))) (snd (env (retries_of (AwaitJson ?sig r c0))))
              (AwaitJson ?sig r c0) ?s2") auto
  from r2 na2 ok obtain res where p3: "p3 = Done (Returns res)"
    "field res ''fromCache'' = Some (JBool False)" "field res ''data'' = Some d"
    "fetch_calls s3 = fetch_calls s1"
    by (auto simp: on_json_def json_settles_def setCachedData_def Let_def split: if_splits)
  have "run cfg env (AwaitFetch ?sig c0) s1 = run cfg env (AwaitJson ?sig r c0) ?s2"
    by (rule run_step [where cfg = cfg and env = env, OF _ r1]) simp
  also have "\<dots> = run cfg env p3 s3"
    by (rule run_step [where cfg = cfg and env = env, OF _ r2]) simp
  finally have "execute cfg env now rb rh s = (Returns res, s3)"
    using b(1) p3(1) by (simp add: execute_def run_Done)
  with p3 b(4) show ?thesis by simp
qed

lemma execute_miss_fetches:
  assumes g: "getCachedData cfg now s = (None, s0)" and budget: "0 \<le> retryCount cfg"
  shows "length (fetch_calls s) < length (fetch_calls (snd (execute cfg env now rb rh s))) \<and>
         (\<forall>res. fst (execute cfg env now rb rh s) = Returns res \<longrightarrow>
            field res ''fromCache'' = Some (JBool False) \<or>
            res = [(''data'', JNull), (''status'', JNull), (''aborted'', JBool True)])"
proof -
  obtain c s' where e: "execute cfg env now rb rh s = (c, s')"
    by (cases "execute cfg env now rb rh s") auto
  from execute_miss_last_step [OF g budget e]
  obtain q t where q: "in_flight cfg env (length (fetch_calls s)) (length (controllers s)) q t"
    "\<forall>r. q \<noteq> Done r"
    "resume cfg (fst (env (retries_of q))) (snd (env (retries_of q))) q t = (Done c, s')"
    by blast
  from resume_fetch_count [OF q] in_flight_retries [OF q(1,2)]
  have "length (fetch_calls s) < length (fetch_calls s')" by simp
  moreover from resume_settled [OF q]
  have "\<forall>res. c = Returns res \<longrightarrow> field res ''fromCache'' = Some (JBool False) \<or>
            res = [(''data'', JNull), (''status'', JNull), (''aborted'', JBool True)]"
    by (auto simp: settled_def)
  ultimately show ?thesis using e by simp
qed

subsection \<open>Resuming one call among several\<close>

lemma step_Execute_controllers:
  "take (length (controllers s)) (controllers (fst (step cfg (s, ps) (Execute rb rh now)))) = controllers s"
  by (auto simp: execute_begin_def getCachedData_def loop_head_def catch_block_def Let_def
      split: prod.splits option.splits if_splits)

lemma resume_fetch_writes_status:
  assumes "\<not> signal_aborted s sig" and "resume cfg (Resolves r) now (AwaitFetch sig c) s = (p, s')"
  shows "status s' = Some (resp_status r)"
  using assms
  by (auto simp: on_fetch_def catch_block_def fetch_settles_def Let_def split: if_splits)

lemma resume_json_writes_data:
  assumes "\<not> signal_aborted s sig" and "resp_json r = Inr d"
    and "resume cfg out now (AwaitJson sig r c) s = (p, s')"
  shows "data s' = d"
  using assms
  by (auto simp: on_json_def json_settles_def setCachedData_def Let_def split: if_splits)

lemma resume_aborted:
  assumes "signal_aborted s sig" and "p = AwaitFetch sig c \<or> p = AwaitJson sig r c"
  shows "resume cfg out now p s =
           (Done (Returns [(''data'', JNull), (''status'', JNull), (''aborted'', JBool True)]), s)"
  using assms
  by (auto simp: on_fetch_def on_json_def json_settles_def fetch_settles_def catch_block_def abortError_def)

subsection \<open>Serialised headers determine the headers\<close>

lemma hex_char_inj: "a < 16 \<Longrightarrow> b < 16 \<Longrightarrow> hex_char a = hex_char b \<Longrightarrow> a = b"
  by (auto simp: hex_char_def char_of_eq_iff take_bit_eq_mod split: if_splits)

lemma quote_char_nonempty: "quote_char c \<noteq> []"
  by (simp add: quote_char_def)

lemma quote_char_hd: "hd (quote_char c) \<noteq> CHR 0x22"
  by (simp add: quote_char_def)

lemma low_char_eq:
  assumes "of_char c < (32::nat)" "of_char d < (32::nat)"
    and "hex_char (of_char c div 16) = hex_char (of_char d div 16)"
    and "hex_char (of_char c mod 16) = hex_char (of_char d mod 16)"
  shows "c = d"
proof -
  have "(of_char c :: nat) div 16 = of_char d div 16"
    using assms(1,2) by (intro hex_char_inj [OF _ _ assms(3)]) auto
  moreover have "(of_char c :: nat) mod 16 = of_char d mod 16"
    by (intro hex_char_inj [OF _ _ assms(4)]) auto
  ultimately have "(of_char c :: nat) = of_char d"
    by (metis div_mult_mod_eq)
  then show ?thesis by simp
qed

lemma quote_char_prefix_free:
  assumes "quote_char c @ x = quote_char d @ y"
  shows "c = d \<and> x = y"
  using assms low_char_eq [of c d]
  by (auto simp: quote_char_def split: if_splits)

lemma quoted_body_inj:
  assumes "concat (map quote_char a) @ CHR 0x22 # x = concat (map quote_char b) @ CHR 0x22 # y"
  shows "a = b \<and> x = y"
  using assms
proof (induction a arbitrary: b)
  case Nil
  show ?case
  proof (cases b)
    case Nil
    with Nil.prems show ?thesis by simp
  next
    case (Cons d b')
    with Nil.prems have "hd (quote_char d @ concat (map quote_char b') @ CHR 0x22 # y) = CHR 0x22"
      by (metis append.assoc append_Nil concat.simps(1,2) list.map(1,2) list.sel(1))
    with quote_char_nonempty [of d] quote_char_hd [of d] show ?thesis by simp
  qed
next
  case (Cons c a')
  show ?case
  proof (cases b)
    case Nil
    with Cons.prems have "hd (quote_char c @ concat (map quote_char a') @ CHR 0x22 # x) = CHR 0x22"
      by simp
    with quote_char_nonempty [of c] quote_char_hd [of c] show ?thesis by simp
  next
    case (Cons d b')
    with Cons.prems have "quote_char c @ (concat (map quote_char a') @ CHR 0x22 # x) =
        quote_char d @ (concat (map quote_char b') @ CHR 0x22 # y)"
      by simp
    from quote_char_prefix_free [OF this] Cons.IH [of b'] Cons show ?thesis by simp
  qed
qed

lemma quote_inj:
  assumes "quote a @ x = quote b @ y"
  shows "a = b \<and> x = y"
  using assms quoted_body_inj [of a x b y] by (simp add: quote_def)

lemma entry_inj:
  assumes "entry e1 @ x = entry e2 @ y"
  shows "e1 = e2 \<and> x = y"
proof -
  from assms have "quote (fst e1) @ (CHR '':'' # quote (snd e1) @ x) = quote (fst e2) @ (CHR '':'' # quote (snd e2) @ y)"
    by (simp add: entry_def)
  from quote_inj [OF this] have 1: "fst e1 = fst e2" and "quote (snd e1) @ x = quote (snd e2) @ y"
    by simp_all
  from quote_inj [OF this(2)] 1 show ?thesis by (simp add: prod_eq_iff)
qed

lemma entry_hd: "hd (entry e @ x) = CHR 0x22"
  by (simp add: entry_def quote_def)

lemma join_Cons: "join sep (x # xs) = x @ (if xs = [] then [] else sep @ join sep xs)"
  by (cases xs) simp_all

lemma joined_entries_inj:
  assumes "join '','' (map entry h1) @ CHR ''}'' # x = join '','' (map entry h2) @ CHR ''}'' # y"
  shows "h1 = h2 \<and> x = y"
  using assms
proof (induction h1 arbitrary: h2)
  case Nil
  show ?case
  proof (cases h2)
    case Nil
    with Nil.prems show ?thesis by simp
  next
    case (Cons e h)
    with Nil.prems have "CHR ''}'' # x =
        entry e @ ((if h = [] then [] else '','' @ join '','' (map entry h)) @ CHR ''}'' # y)"
      by (simp add: join_Cons)
    then have "hd (entry e @ ((if h = [] then [] else '','' @ join '','' (map entry h)) @ CHR ''}'' # y)) = CHR ''}''"
      by (metis list.sel(1))
    then show ?thesis by (simp only: entry_hd) simp
  qed
next
  case (Cons e1 t1)
  show ?case
  proof (cases h2)
    case Nil
    with Cons.prems have "entry e1 @ ((if t1 = [] then [] else '','' @ join '','' (map entry t1)) @ CHR ''}'' # x) =
        CHR ''}'' # y"
      by (simp add: join_Cons)
    then have "hd (entry e1 @ ((if t1 = [] then [] else '','' @ join '','' (map entry t1)) @ CHR ''}'' # x)) = CHR ''}''"
      by (metis list.sel(1))
    then show ?thesis by (simp only: entry_hd) simp
  next
    case (Cons e2 t2)
    with Cons.prems have "entry e1 @ ((if t1 = [] then [] else '','' @ join '','' (map entry t1)) @ CHR ''}'' # x) =
        entry e2 @ ((if t2 = [] then [] else '','' @ join '','' (map entry t2)) @ CHR ''}'' # y)"
      by (simp add: join_Cons)
    from entry_inj [OF this] have e: "e1 = e2"
      and r: "(if t1 = [] then [] else '','' @ join '','' (map entry t1)) @ CHR ''}'' # x =
              (if t2 = [] then [] else '','' @ join '','' (map entry t2)) @ CHR ''}'' # y"
      by simp_all
    from r Cons.IH [of t2] have "t1 = t2 \<and> x = y"
      by (cases "t1 = []"; cases "t2 = []") simp_all
    with e Cons show ?thesis by simp
  qed
qed

lemma insort_key_map:
  "insort_key f (g x) (map g xs) = map g (insort_key (\<lambda>y. f (g y)) x xs)"
  by (induction xs) auto

lemma sort_key_map: "sort_key f (map g xs) = map g (sort_key (\<lambda>y. f (g y)) xs)"
  by (induction xs) (simp_all add: insort_key_map)

lemma own_property_order_map:
  "own_property_order (map (\<lambda>(k, v). (k, f v)) ps) =
     map (\<lambda>(k, v). (k, f v)) (own_property_order ps)"
proof -
  have 1: "(\<lambda>p. is_array_index (fst p)) \<circ> (\<lambda>(k, v). (k, f v)) = (\<lambda>p. is_array_index (fst p))"
    by (auto simp: fun_eq_iff)
  have 2: "(\<lambda>p. \<not> is_array_index (fst p)) \<circ> (\<lambda>(k, v). (k, f v)) =
      (\<lambda>p. \<not> is_array_index (fst p))"
    by (auto simp: fun_eq_iff)
  have 3: "(\<lambda>y. digits_value (fst (case y of (k, v) \<Rightarrow> (k, f v)))) = (\<lambda>p. digits_value (fst p))"
    by (auto simp: fun_eq_iff)
  show ?thesis
    by (simp add: own_property_order_def filter_map sort_key_map 1 2 3)
qed

lemma own_property_order_plain:
  assumes "\<forall>k \<in> fst ` set ps. \<not> is_array_index k"
  shows "own_property_order ps = ps"
proof -
  from assms have "filter (\<lambda>p. is_array_index (fst p)) ps = []"
    by (auto simp: filter_empty_conv)
  moreover from assms have "filter (\<lambda>p. \<not> is_array_index (fst p)) ps = ps"
    by (auto simp: filter_id_conv)
  ultimately show ?thesis by (simp add: own_property_order_def)
qed

lemma stringify_headers:
  "stringify (headers_json hs) = ''{'' @ join '','' (map entry (own_property_order hs)) @ ''}''"
proof -
  have "map (\<lambda>(k, v). (k, stringify v)) (map (\<lambda>(k, v). (k, JStr v)) hs) =
      map (\<lambda>(k, v). (k, quote v)) hs"
    by (induction hs) auto
  moreover have "map (\<lambda>(k, js). quote k @ '':'' @ js) (map (\<lambda>(k, v). (k, quote v)) ps) =
      map entry ps" for ps
    by (induction ps) (auto simp: entry_def)
  ultimately show ?thesis
    by (simp add: headers_json_def own_property_order_map del: map_map)
qed

lemma stringify_headers_iff:
  "stringify (headers_json h1) = stringify (headers_json h2) \<longleftrightarrow>
     own_property_order h1 = own_property_order h2"
  using joined_entries_inj [of "own_property_order h1" "[]" "own_property_order h2" "[]"]
  by (auto simp: stringify_headers)

lemma includes_str_nonempty: "includes_str cc (x # xs) \<Longrightarrow> cc \<noteq> []"
  by (cases cc) auto

section \<open>Overlapping calls and RequestState\<close>

lemma step_Execute_installs:
  assumes "fst (getCachedData cfg now s) = None"
  shows "abortControllerRef (fst (step cfg (s, ps) (Execute rb rh now))) = Some (length (controllers s))"
proof -
  from assms obtain s0 where g: "getCachedData cfg now s = (None, s0)"
    by (cases "getCachedData cfg now s") auto
  from getCachedData_None [OF g] have "controllers s0 = controllers s" by auto
  with g show ?thesis
    by (auto simp: execute_begin_def loop_head_def Let_def split: prod.splits)
qed

lemma step_timer:
  assumes "i < length ps" and "ps ! i = AwaitTimer d c" and "retries c \<le> retryCount cfg"
    and "abortControllerRef s = Some cur"
  shows "step cfg (s, ps) (Settle i out now) =
           (s\<lparr>fetch_calls := fetch_calls s @ [build_request cfg c cur]\<rparr>, ps[i := AwaitFetch cur c])"
  using assms by (simp add: loop_head_def)

text \<open>
  C1. The claim says that once a newer execute call B has started, an older call A that is
  still in flight never writes to RequestState. The source has no such guard: starting B
  makes a new controller the current one and signals none of those that exist, and a
  resumed call never checks whether it is the newest. Every attempt is given the signal of
  the controller that is current when the attempt is made (\<open>sig\<close> below is the signal the
  pending attempt was given, which for a retry need not be the signal of the controller
  the call itself created). What holds, of any call among any number of calls: starting
  execute leaves every existing controller's aborted flag as it was and, when it goes to
  the network, makes the new controller the current one; when a call's backoff timer
  fires with retries left, the call writes nothing to RequestState and makes its next
  attempt with the current controller's signal; when a pending attempt resolves while the
  signal it was given is not aborted, the call writes the response's status, and when the
  body has been read it writes data; when the signal the pending attempt was given is
  aborted, the call ends as aborted and the state is as it was.
\<close>

theorem superseded_call_writes:
  "take (length (controllers s)) (controllers (fst (step cfg (s, ps) (Execute rb rh now)))) = controllers s \<and>
   (fst (getCachedData cfg now s) = None \<longrightarrow>
      abortControllerRef (fst (step cfg (s, ps) (Execute rb rh now))) = Some (length (controllers s))) \<and>
   (i < length ps \<and> ps ! i = AwaitTimer d c \<and> retries c \<le> retryCount cfg \<and>
      abortControllerRef s = Some cur \<longrightarrow>
      step cfg (s, ps) (Settle i out now) =
        (s\<lparr>fetch_calls := fetch_calls s @ [build_request cfg c cur]\<rparr>, ps[i := AwaitFetch cur c])) \<and>
   (i < length ps \<and> ps ! i = AwaitFetch sig c \<and> \<not> signal_aborted s sig \<longrightarrow>
      status (fst (step cfg (s, ps) (Settle i (Resolves r) now))) = Some (resp_status r)) \<and>
   (i < length ps \<and> ps ! i = AwaitJson sig r c \<and> \<not> signal_aborted s sig \<and> resp_json r = Inr d' \<longrightarrow>
      data (fst (step cfg (s, ps) (Settle i out now))) = d') \<and>
   (i < length ps \<and> (ps ! i = AwaitFetch sig c \<or> ps ! i = AwaitJson sig r c) \<and> signal_aborted s sig \<longrightarrow>
      step cfg (s, ps) (Settle i out now) =
        (s, ps[i := Done (Returns [(''data'', JNull), (''status'', JNull), (''aborted'', JBool True)])]))"
proof (intro conjI impI)
  show "take (length (controllers s)) (controllers (fst (step cfg (s, ps) (Execute rb rh now)))) = controllers s"
    by (rule step_Execute_controllers)
next
  assume "fst (getCachedData cfg now s) = None"
  then show "abortControllerRef (fst (step cfg (s, ps) (Execute rb rh now))) = Some (length (controllers s))"
    by (rule step_Execute_installs)
next
  assume "i < length ps \<and> ps ! i = AwaitTimer d c \<and> retries c \<le> retryCount cfg \<and>
      abortControllerRef s = Some cur"
  then show "step cfg (s, ps) (Settle i out now) =
        (s\<lparr>fetch_calls := fetch_calls s @ [build_request cfg c cur]\<rparr>, ps[i := AwaitFetch cur c])"
    using step_timer [of i ps d c cfg s cur out now] by blast
next
  assume a: "i < length ps \<and> ps ! i = AwaitFetch sig c \<and> \<not> signal_aborted s sig"
  obtain p s' where r: "resume cfg (Resolves r) now (AwaitFetch sig c) s = (p, s')"
    by (cases "resume cfg (Resolves r) now (AwaitFetch sig c) s") auto
  with a resume_fetch_writes_status [OF _ r]
  show "status (fst (step cfg (s, ps) (Settle i (Resolves r) now))) = Some (resp_status r)"
    by simp
next
  assume a: "i < length ps \<and> ps ! i = AwaitJson sig r c \<and> \<not> signal_aborted s sig \<and> resp_json r = Inr d'"
  obtain p s' where r: "resume cfg out now (AwaitJson sig r c) s = (p, s')"
    by (cases "resume cfg out now (AwaitJson sig r c) s") auto
  with a resume_json_writes_data [OF _ _ r]
  show "data (fst (step cfg (s, ps) (Settle i out now))) = d'"
    by simp
next
  assume a: "i < length ps \<and> (ps ! i = AwaitFetch sig c \<or> ps ! i = AwaitJson sig r c) \<and> signal_aborted s sig"
  then have "resume cfg out now (ps ! i) s =
           (Done (Returns [(''data'', JNull), (''status'', JNull), (''aborted'', JBool True)]), s)"
    using resume_aborted [of s sig "ps ! i" c r cfg out now] by blast
  with a show "step cfg (s, ps) (Settle i out now) =
        (s, ps[i := Done (Returns [(''data'', JNull), (''status'', JNull), (''aborted'', JBool True)])])"
    by simp
qed

text \<open>
  The first call's own controller (0) has been aborted while the call waited for its
  timer, and a second call has been started. The first call's retry is made with the
  second call's signal (1), and it writes status and data.
\<close>

theorem superseded_call_writes_witness:
  "(fst (getCachedData (default_options ''/api/posts'') 0 initial_state) = None \<and>
    abortControllerRef (fst (step (default_options ''/api/posts'') (initial_state, []) (Execute None None 0))) =
      Some 0) \<and>
   (0 < length (snd retry_after_abort) \<and>
    snd retry_after_abort ! 0 = AwaitTimer 1000 \<lparr>requestBody = JNull, requestHeaders = [], retries = 1\<rparr> \<and>
    retries \<lparr>requestBody = JNull, requestHeaders = [], retries = 1\<rparr> \<le>
      retryCount (default_options ''/api/posts'') \<and>
    abortControllerRef (fst retry_after_abort) = Some 1 \<and>
    controllers (fst retry_after_abort) = [True, False]) \<and>
   snd retry_pending ! 0 = AwaitFetch 1 \<lparr>requestBody = JNull, requestHeaders = [], retries = 1\<rparr> \<and>
   request_state (fst retry_pending) = request_state (fst retry_after_abort) \<and>
   \<not> signal_aborted (fst retry_pending) 1 \<and>
   status (fst retry_reading) = Some 200 \<and>
   (snd retry_reading ! 0 =
      AwaitJson 1 (createMockResponse posts [] 200) \<lparr>requestBody = JNull, requestHeaders = [], retries = 1\<rparr> \<and>
    \<not> signal_aborted (fst retry_reading) 1 \<and>
    resp_json (createMockResponse posts [] 200) = Inr posts) \<and>
   data (fst (step (default_options ''/api/posts'') retry_reading (Settle 0 (Rejects abortError) 1011))) = posts \<and>
   (1 < length (snd two_in_flight) \<and>
    snd two_in_flight ! 1 = AwaitFetch 1 \<lparr>requestBody = JNull, requestHeaders = [], retries = 0\<rparr> \<and>
    signal_aborted (abort (fst two_in_flight)) 1) \<and>
   fst (step (default_options ''/api/posts'') (abort (fst two_in_flight), snd two_in_flight)
      (Settle 1 (Resolves (createMockResponse posts [] 200)) 5)) = abort (fst two_in_flight)"
proof -
  let ?cfg = "default_options ''/api/posts''"
  let ?c0 = "\<lparr>requestBody = JNull, requestHeaders = [], retries = 0\<rparr>"
  let ?c1 = "\<lparr>requestBody = JNull, requestHeaders = [], retries = 1\<rparr>"
  let ?r = "createMockResponse posts [] 200"
  note th = superseded_call_writes [where cfg = ?cfg]
  have m: "fst (getCachedData ?cfg 0 initial_state) = None"
    by (simp add: getCachedData_def default_options_def)
  from m th [where s = initial_state and ps = "[]" and now = 0 and rb = None and rh = None]
  have w1: "abortControllerRef (fst (step ?cfg (initial_state, []) (Execute None None 0))) = Some 0"
    by (simp add: initial_state_def)
  have t: "0 < length (snd retry_after_abort) \<and> snd retry_after_abort ! 0 = AwaitTimer 1000 ?c1 \<and>
      retries ?c1 \<le> retryCount ?cfg \<and> abortControllerRef (fst retry_after_abort) = Some 1 \<and>
      controllers (fst retry_after_abort) = [True, False]"
    by code_simp
  from t th [where s = "fst retry_after_abort" and ps = "snd retry_after_abort" and i = 0
      and d = 1000 and c = ?c1 and cur = 1 and out = "Rejects abortError" and now = 1005]
  have tp: "retry_pending =
      ((fst retry_after_abort)\<lparr>fetch_calls := fetch_calls (fst retry_after_abort) @ [build_request ?cfg ?c1 1]\<rparr>,
       (snd retry_after_abort)[0 := AwaitFetch 1 ?c1])"
    by (simp add: retry_pending_def)
  from t have w2: "snd retry_pending ! 0 = AwaitFetch 1 ?c1"
    and w3: "request_state (fst retry_pending) = request_state (fst retry_after_abort)"
    and na: "\<not> signal_aborted (fst retry_pending) 1"
    and l: "0 < length (snd retry_pending)"
    unfolding tp by (simp_all add: request_state_def signal_aborted_def)
  from l w2 na th [where s = "fst retry_pending" and ps = "snd retry_pending" and i = 0
      and sig = 1 and c = ?c1 and r = ?r and now = 1010]
  have w4: "status (fst retry_reading) = Some 200"
    by (simp add: retry_reading_def createMockResponse_def)
  have j: "snd retry_reading ! 0 = AwaitJson 1 ?r ?c1 \<and> \<not> signal_aborted (fst retry_reading) 1 \<and>
      resp_json ?r = Inr posts"
    by code_simp
  have lr: "0 < length (snd retry_reading)" by code_simp
  from lr j th [where s = "fst retry_reading" and ps = "snd retry_reading" and i = 0
      and sig = 1 and c = ?c1 and r = ?r and d' = posts and out = "Rejects abortError" and now = 1011]
  have w5: "data (fst (step ?cfg retry_reading (Settle 0 (Rejects abortError) 1011))) = posts"
    by simp
  have a: "1 < length (snd two_in_flight) \<and> snd two_in_flight ! 1 = AwaitFetch 1 ?c0 \<and>
      signal_aborted (abort (fst two_in_flight)) 1"
    by code_simp
  then have a': "1 < length (snd two_in_flight) \<and>
      (snd two_in_flight ! 1 = AwaitFetch 1 ?c0 \<or> snd two_in_flight ! 1 = AwaitJson 1 ?r ?c0) \<and>
      signal_aborted (abort (fst two_in_flight)) 1"
    by blast
  from a' th [where s = "abort (fst two_in_flight)" and ps = "snd two_in_flight"
      and i = 1 and sig = 1 and c = ?c0 and r = ?r and now = 5 and out = "Resolves ?r"]
  have w6: "fst (step ?cfg (abort (fst two_in_flight), snd two_in_flight) (Settle 1 (Resolves ?r) 5)) =
      abort (fst two_in_flight)"
    by simp
  from m w1 t w2 w3 na w4 j w5 a w6 show ?thesis by blast
qed

text \<open>With two calls in flight, the older one (index 0) writes status when its fetch
  resolves and data when its body has been read, while the newer one is still waiting.\<close>

theorem superseded_call_counterexample:
  "snd two_in_flight =
     [AwaitFetch 0 \<lparr>requestBody = JNull, requestHeaders = [], retries = 0\<rparr>,
      AwaitFetch 1 \<lparr>requestBody = JNull, requestHeaders = [], retries = 0\<rparr>] \<and>
   request_state (fst two_in_flight) = (JNull, True, None, None) \<and>
   request_state (fst (step (default_options ''/api/posts'') two_in_flight
       (Settle 0 (Resolves (createMockResponse posts [] 200)) 5))) = (JNull, True, None, Some 200) \<and>
   request_state (fst (foldl (step (default_options ''/api/posts'')) two_in_flight
       [Settle 0 (Resolves (createMockResponse posts [] 200)) 5,
        Settle 0 (Resolves (createMockResponse posts [] 200)) 6])) = (posts, True, None, Some 200) \<and>
   snd (foldl (step (default_options ''/api/posts'')) two_in_flight
       [Settle 0 (Resolves (createMockResponse posts [] 200)) 5,
        Settle 0 (Resolves (createMockResponse posts [] 200)) 6]) ! 1 =
     AwaitFetch 1 \<lparr>requestBody = JNull, requestHeaders = [], retries = 0\<rparr>"
  by code_simp

section \<open>Abort\<close>

text \<open>
  C2. A call whose token is signalled through abort() before its fetch settles returns the
  object with aborted: true, leaves error null and calls neither callback. The claim also
  says that loading becomes false; the source sets loading to true on the way to the
  network and never sets it back, so it is still true after the abort. Evaluated here on
  the hook with both callbacks supplied: execute, then abort, then the fetch settles.
\<close>

theorem abort_leaves_loading:
  "snd (run_events ((default_options ''/api/posts'')\<lparr>onSuccess := True, onError := True\<rparr>)
     [Execute None None 0, Abort, Settle 0 (Resolves (createMockResponse posts [] 200)) 5]) =
     [Done (Returns [(''data'', JNull), (''status'', JNull), (''aborted'', JBool True)])] \<and>
   request_state (fst (run_events ((default_options ''/api/posts'')\<lparr>onSuccess := True, onError := True\<rparr>)
     [Execute None None 0, Abort, Settle 0 (Resolves (createMockResponse posts [] 200)) 5])) =
     (JNull, True, None, None) \<and>
   onSuccess_calls (fst (run_events ((default_options ''/api/posts'')\<lparr>onSuccess := True, onError := True\<rparr>)
     [Execute None None 0, Abort, Settle 0 (Resolves (createMockResponse posts [] 200)) 5])) = [] \<and>
   onError_calls (fst (run_events ((default_options ''/api/posts'')\<lparr>onSuccess := True, onError := True\<rparr>)
     [Execute None None 0, Abort, Settle 0 (Resolves (createMockResponse posts [] 200)) 5])) = []"
  by code_simp

section \<open>What execute returns\<close>









section \<open>Classification order\<close>

text \<open>
  C4. The claim reads the rules as first match wins in the order no-store, no-cache,
  validated, fresh. The source tests no-cache before no-store: a Cache-Control value that
  contains no-store is classified no-store exactly when it does not also contain
  no-cache, whatever the ETag and Last-Modified headers are; when it contains both, the
  classification is no-cache.
\<close>

theorem classify_no_store:
  assumes "includes_str cc ''no-store''"
  shows "classify (Some cc) etag lastModified =
           (if includes_str cc ''no-cache'' then ''no-cache'' else ''no-store'')"
proof -
  from includes_str_nonempty [OF assms] have "truthy_str (Some cc)"
    by (simp add: truthy_str_def)
  with assms show ?thesis
    by (simp add: classify_def)
qed


theorem classify_no_store_witness:
  "includes_str ''no-store'' ''no-store'' \<and>
   classify (Some ''no-store'') (Some ''abc123'') None = ''no-store''"
proof -
  have h: "includes_str ''no-store'' ''no-store''" by simp
  from classify_no_store [OF h, of "Some ''abc123''" None]
  have "classify (Some ''no-store'') (Some ''abc123'') None = ''no-store''" by simp
  with h show ?thesis by (rule conjI)
qed


text \<open>The value the repository's own nginx configuration sends contains both directives
  and is classified no-cache, not no-store.\<close>

theorem classify_no_store_counterexample:
  "includes_str ''no-cache, no-store, must-revalidate'' ''no-store'' \<and>
   classify (Some ''no-cache, no-store, must-revalidate'') None None = ''no-cache''"
  by (simp add: classify_def truthy_str_def)


section \<open>Cache hits\<close>

text \<open>
  C5. With caching enabled, after a first execute has completed with a successful response,
  a second execute on the same hook started less than cacheTime after that completion
  returns fromCache: true with the first call's payload and makes no fetch call. The first
  call completed on the attempt numbered by the fetch calls it made, minus one; its
  completion time is the clock value of that attempt. The key is built from the hook's own
  method, endpoint, body and headers, so the second call's arguments do not matter.
\<close>

theorem second_call_from_cache:
  assumes on: "cache cfg"
    and first: "execute cfg env1 now1 rb1 rh1 s0 = (Returns res1, s1)"
    and net: "field res1 ''fromCache'' = Some (JBool False)"
    and within: "now2 - snd (env1 (int (length (fetch_calls s1)) - int (length (fetch_calls s0)) - 1)) < cacheTime cfg"
  shows "\<exists>res2 s2. execute cfg env2 now2 rb2 rh2 s1 = (Returns res2, s2) \<and>
           field res2 ''fromCache'' = Some (JBool True) \<and>
           field res2 ''data'' = field res1 ''data'' \<and>
           fetch_calls s2 = fetch_calls s1"
proof -
  obtain cr0 t0 where g: "getCachedData cfg now1 s0 = (cr0, t0)"
    by (cases "getCachedData cfg now1 s0") auto
  have miss: "cr0 = None"
  proof (cases cr0)
    case (Some x)
    with g execute_hit [of cfg now1 s0 x t0 env1 rb1 rh1] first net show ?thesis by auto
  qed simp
  have budget: "0 \<le> retryCount cfg"
  proof (rule ccontr)
    assume "\<not> 0 \<le> retryCount cfg"
    with execute_no_budget [of cfg now1 s0 t0 env1 rb1 rh1] g miss first show False by simp
  qed
  from g miss have g': "getCachedData cfg now1 s0 = (None, t0)" by simp
  from execute_miss_last_step [OF g' budget first]
  obtain q t where q: "in_flight cfg env1 (length (fetch_calls s0)) (length (controllers s0)) q t"
    "\<forall>r. q \<noteq> Done r"
    "resume cfg (fst (env1 (retries_of q))) (snd (env1 (retries_of q))) q t = (Done (Returns res1), s1)"
    by blast
  from resume_success [OF q net] on
  obtain d st where d: "field res1 ''data'' = Some d"
    "fetch_calls s1 = fetch_calls t"
    "int (length (fetch_calls t)) = int (length (fetch_calls s0)) + retries_of q + 1"
    "cacheRef s1 = obj_set (cacheRef t) (getCacheKey cfg)
        \<lparr>ce_data = d, ce_timestamp = snd (env1 (retries_of q)), ce_status = st\<rparr>"
    by auto
  from d(2,3) have k: "int (length (fetch_calls s1)) - int (length (fetch_calls s0)) - 1 = retries_of q"
    by simp
  from d(4) have "field (cacheRef s1) (getCacheKey cfg) =
      Some \<lparr>ce_data = d, ce_timestamp = snd (env1 (retries_of q)), ce_status = st\<rparr>"
    by (simp add: field_obj_set_same)
  from getCachedData_hit [OF on this, of now2] within k
  have "getCachedData cfg now2 s1 =
      (Some \<lparr>cr_data = d, cr_status = ''cached'', cr_timestamp = snd (env1 (retries_of q)),
             cr_age = now2 - snd (env1 (retries_of q))\<rparr>, s1)"
    by simp
  from execute_hit [OF this, of env2 rb2 rh2] d(1) show ?thesis
    by simp
qed


theorem second_call_from_cache_witness:
  "cache home_options \<and>
   fst (execute home_options (always (Resolves (createMockResponse posts [] 200)) 1000) 0 None None
          initial_state) =
     Returns [(''data'', posts), (''status'', JNum 200), (''fromCache'', JBool False),
              (''cacheStatus'', JStr ''fresh''),
              (''cacheHeaders'', JObj [(''cacheControl'', JNull), (''etag'', JNull),
                                      (''lastModified'', JNull)])] \<and>
   (\<exists>res2 s2.
      execute home_options (always (Rejects abortError) 2000) 2000 None None
        (snd (execute home_options (always (Resolves (createMockResponse posts [] 200)) 1000) 0 None None
           initial_state)) = (Returns res2, s2) \<and>
      field res2 ''fromCache'' = Some (JBool True) \<and>
      field res2 ''data'' = Some posts \<and>
      fetch_calls s2 =
        fetch_calls (snd (execute home_options (always (Resolves (createMockResponse posts [] 200)) 1000)
           0 None None initial_state)))"
proof -
  let ?env = "always (Resolves (createMockResponse posts [] 200)) 1000"
  let ?E = "execute home_options ?env 0 None None initial_state"
  let ?res = "[(''data'', posts), (''status'', JNum 200), (''fromCache'', JBool False),
              (''cacheStatus'', JStr ''fresh''),
              (''cacheHeaders'', JObj [(''cacheControl'', JNull), (''etag'', JNull),
                                      (''lastModified'', JNull)])]"
  have on: "cache home_options" by (simp add: home_options_def)
  have v: "fst ?E = Returns ?res" by code_simp
  then have first: "?E = (Returns ?res, snd ?E)" by (simp add: prod_eq_iff)
  have net: "field ?res ''fromCache'' = Some (JBool False)" by simp
  have within: "2000 - snd (?env (int (length (fetch_calls (snd ?E))) - int (length (fetch_calls initial_state)) - 1))
      < cacheTime home_options"
    by (simp add: always_def home_options_def default_options_def)
  from second_call_from_cache [OF on first net within,
      where ?env2.0 = "always (Rejects abortError) 2000" and ?rb2.0 = None and ?rh2.0 = None]
  have "\<exists>res2 s2. execute home_options (always (Rejects abortError) 2000) 2000 None None (snd ?E) = (Returns res2, s2) \<and>
      field res2 ''fromCache'' = Some (JBool True) \<and> field res2 ''data'' = Some posts \<and>
      fetch_calls s2 = fetch_calls (snd ?E)"
    by simp
  with on v show ?thesis by blast
qed

section \<open>Retries\<close>

text \<open>
  C6. For a retry count N that is not negative, if the call goes to the network and every
  attempt fails with a transient error (a response that is not ok, or a rejection other
  than an abort), execute makes exactly N + 1 fetch calls, writes the message of the last
  error to the error cell, calls onError (when one was supplied) once with that error and
  the count N + 1, and throws the error.
\<close>

theorem exhausted_retries:
  assumes budget: "0 \<le> retryCount cfg"
    and fails: "\<forall>k. 0 \<le> k \<and> k \<le> retryCount cfg \<longrightarrow> transient (fst (env k))"
    and miss: "fst (getCachedData cfg now s) = None"
  shows "\<exists>s'. execute cfg env now rb rh s = (Throws (failure_error (fst (env (retryCount cfg)))), s') \<and>
           int (length (fetch_calls s')) = int (length (fetch_calls s)) + retryCount cfg + 1 \<and>
           error s' = Some (err_message (failure_error (fst (env (retryCount cfg))))) \<and>
           onError_calls s' = onError_calls s @
             (if onError cfg then [(failure_error (fst (env (retryCount cfg))), retryCount cfg + 1)] else [])"
proof -
  obtain s0 where g: "getCachedData cfg now s = (None, s0)"
    using miss by (cases "getCachedData cfg now s") auto
  obtain c s' where e: "execute cfg env now rb rh s = (c, s')"
    by (cases "execute cfg env now rb rh s") auto
  from execute_miss_last_step [OF g budget e]
  obtain q t where q: "in_flight cfg env (length (fetch_calls s)) (length (controllers s)) q t"
    "\<forall>r. q \<noteq> Done r" "onError_calls t = onError_calls s"
    "resume cfg (fst (env (retries_of q))) (snd (env (retries_of q))) q t = (Done c, s')"
    by blast
  from in_flight_retries [OF q(1,2)] fails have "transient (fst (env (retries_of q)))"
    by blast
  from resume_transient [OF q(1,2) this q(4)]
  have c: "c = Throws (failure_error (fst (env (retryCount cfg))))" .
  from resume_throws [OF q(1,2) q(4) [unfolded c]] q(3) e c show ?thesis
    by simp
qed


theorem exhausted_retries_witness:
  "0 \<le> retryCount home_options \<and>
   (\<forall>k. transient (fst (always (Resolves (createMockResponse (JObj []) [] 500)) 10 k))) \<and>
   fst (getCachedData home_options 0 initial_state) = None \<and>
   (\<exists>s'. execute home_options (always (Resolves (createMockResponse (JObj []) [] 500)) 10) 0 None None
            initial_state =
            (Throws \<lparr>err_name = ''Error'', err_message = ''HTTP error! status: 500''\<rparr>, s') \<and>
         length (fetch_calls s') = 4 \<and>
         error s' = Some ''HTTP error! status: 500'' \<and>
         onError_calls s' =
           [(\<lparr>err_name = ''Error'', err_message = ''HTTP error! status: 500''\<rparr>, 4)])"
proof -
  let ?env = "always (Resolves (createMockResponse (JObj []) [] 500)) 10"
  have budget: "0 \<le> retryCount home_options"
    by (simp add: home_options_def default_options_def)
  have fails: "\<forall>k. transient (fst (?env k))"
    by (simp add: always_def transient_def createMockResponse_def)
  then have fails': "\<forall>k. 0 \<le> k \<and> k \<le> retryCount home_options \<longrightarrow> transient (fst (?env k))"
    by simp
  have miss: "fst (getCachedData home_options 0 initial_state) = None"
    by (simp add: getCachedData_def initial_state_def)
  have "failure_error (Resolves (createMockResponse (JObj []) [] 500)) =
      \<lparr>err_name = ''Error'', err_message = ''HTTP error! status: 500''\<rparr>"
    by code_simp
  then have e: "failure_error (fst (?env k)) =
      \<lparr>err_name = ''Error'', err_message = ''HTTP error! status: 500''\<rparr>" for k
    by (simp add: always_def)
  have n: "retryCount home_options = 3" "onError home_options"
    by (simp_all add: home_options_def default_options_def)
  from exhausted_retries [OF budget fails' miss, where rb = None and rh = None]
  have "\<exists>s'. execute home_options ?env 0 None None initial_state =
            (Throws \<lparr>err_name = ''Error'', err_message = ''HTTP error! status: 500''\<rparr>, s') \<and>
         length (fetch_calls s') = 4 \<and>
         error s' = Some ''HTTP error! status: 500'' \<and>
         onError_calls s' =
           [(\<lparr>err_name = ''Error'', err_message = ''HTTP error! status: 500''\<rparr>, 4)]"
    by (simp add: e n initial_state_def)
  with budget fails miss show ?thesis by blast
qed

section \<open>Expiry\<close>

text \<open>
  C7. With caching enabled and an entry stored under the hook's key, the cache read
  getCachedData returns nothing exactly when now - timestamp >= cacheTime, and it is on
  that read, exactly then, that the entry is deleted. An execute call issued then is not
  served from the cache: it makes at least one fetch call, every object it returns has
  fromCache: false unless it is the aborted object, and when its first attempt succeeds it
  makes exactly one fetch call and returns fromCache: false with the new payload.
\<close>

theorem expired_entry:
  assumes on: "cache cfg" and hit: "field (cacheRef s) (getCacheKey cfg) = Some e"
  shows "(fst (getCachedData cfg now s) = None \<longleftrightarrow> cacheTime cfg \<le> now - ce_timestamp e) \<and>
         (field (cacheRef (snd (getCachedData cfg now s))) (getCacheKey cfg) = None \<longleftrightarrow>
            cacheTime cfg \<le> now - ce_timestamp e) \<and>
         (cacheTime cfg \<le> now - ce_timestamp e \<and> 0 \<le> retryCount cfg \<longrightarrow>
            length (fetch_calls s) < length (fetch_calls (snd (execute cfg env now rb rh s))) \<and>
            (\<forall>res. fst (execute cfg env now rb rh s) = Returns res \<longrightarrow>
               field res ''fromCache'' = Some (JBool False) \<or>
               res = [(''data'', JNull), (''status'', JNull), (''aborted'', JBool True)]) \<and>
            (\<forall>r d. fst (env 0) = Resolves r \<and> resp_ok r \<and> resp_json r = Inr d \<longrightarrow>
               (\<exists>res s'. execute cfg env now rb rh s = (Returns res, s') \<and>
                  field res ''fromCache'' = Some (JBool False) \<and> field res ''data'' = Some d \<and>
                  length (fetch_calls s') = length (fetch_calls s) + 1)))"
proof (intro conjI impI allI)
  show "fst (getCachedData cfg now s) = None \<longleftrightarrow> cacheTime cfg \<le> now - ce_timestamp e"
    using on hit by (auto simp: getCachedData_def)
  show "field (cacheRef (snd (getCachedData cfg now s))) (getCacheKey cfg) = None \<longleftrightarrow>
            cacheTime cfg \<le> now - ce_timestamp e"
    using on hit by (auto simp: getCachedData_def field_map_delete_same)
next
  assume a: "cacheTime cfg \<le> now - ce_timestamp e \<and> 0 \<le> retryCount cfg"
  with on hit have g: "getCachedData cfg now s =
      (None, s\<lparr>cacheRef := map_delete (cacheRef s) (getCacheKey cfg)\<rparr>)"
    by (simp add: getCachedData_def)
  from execute_miss_fetches [OF g, of env rb rh] a
  show "length (fetch_calls s) < length (fetch_calls (snd (execute cfg env now rb rh s)))"
    by simp
  fix res
  assume "fst (execute cfg env now rb rh s) = Returns res"
  with execute_miss_fetches [OF g, of env rb rh] a
  show "field res ''fromCache'' = Some (JBool False) \<or>
               res = [(''data'', JNull), (''status'', JNull), (''aborted'', JBool True)]"
    by simp
next
  fix r d
  assume a: "cacheTime cfg \<le> now - ce_timestamp e \<and> 0 \<le> retryCount cfg"
    and ok: "fst (env 0) = Resolves r \<and> resp_ok r \<and> resp_json r = Inr d"
  with on hit have g: "getCachedData cfg now s =
      (None, s\<lparr>cacheRef := map_delete (cacheRef s) (getCacheKey cfg)\<rparr>)"
    by (simp add: getCachedData_def)
  from execute_first_success [OF g, of env r d rb rh] a ok
  show "\<exists>res s'. execute cfg env now rb rh s = (Returns res, s') \<and>
                  field res ''fromCache'' = Some (JBool False) \<and> field res ''data'' = Some d \<and>
                  length (fetch_calls s') = length (fetch_calls s) + 1"
    by simp
qed


theorem expired_entry_witness:
  "cache home_options \<and>
   field (cacheRef after_first_call) (getCacheKey home_options) =
     Some \<lparr>ce_data = posts, ce_timestamp = 1000, ce_status = ''fresh''\<rparr> \<and>
   fst (getCachedData home_options 301000 after_first_call) = None \<and>
   fst (getCachedData home_options 300999 after_first_call) \<noteq> None \<and>
   field (cacheRef (snd (getCachedData home_options 301000 after_first_call))) (getCacheKey home_options) = None \<and>
   fst (always (Resolves (createMockResponse (JObj []) [] 200)) 301010 0) =
     Resolves (createMockResponse (JObj []) [] 200) \<and>
   (\<exists>res s'. execute home_options (always (Resolves (createMockResponse (JObj []) [] 200)) 301010)
                 301000 None None after_first_call = (Returns res, s') \<and>
      field res ''fromCache'' = Some (JBool False) \<and> field res ''data'' = Some (JObj []) \<and>
      length (fetch_calls s') = length (fetch_calls after_first_call) + 1)"
proof -
  let ?e = "\<lparr>ce_data = posts, ce_timestamp = 1000, ce_status = ''fresh''\<rparr>"
  let ?r = "createMockResponse (JObj []) [] 200"
  let ?env = "always (Resolves ?r) 301010"
  have on: "cache home_options" by (simp add: home_options_def)
  have hit: "field (cacheRef after_first_call) (getCacheKey home_options) = Some ?e"
    by code_simp
  have t: "cacheTime home_options = 300000" "0 \<le> retryCount home_options"
    by (simp_all add: home_options_def default_options_def)
  have ok: "fst (?env 0) = Resolves ?r \<and> resp_ok ?r \<and> resp_json ?r = Inr (JObj [])"
    by (simp add: always_def createMockResponse_def)
  from expired_entry [OF on hit, of 301000] t
  have 1: "fst (getCachedData home_options 301000 after_first_call) = None"
    and 2: "field (cacheRef (snd (getCachedData home_options 301000 after_first_call)))
              (getCacheKey home_options) = None"
    by simp_all
  from expired_entry [OF on hit, of 300999] t
  have 3: "fst (getCachedData home_options 300999 after_first_call) \<noteq> None"
    by simp
  from expired_entry [OF on hit, of 301000 ?env None None] t ok
  have 4: "\<exists>res s'. execute home_options ?env 301000 None None after_first_call = (Returns res, s') \<and>
      field res ''fromCache'' = Some (JBool False) \<and> field res ''data'' = Some (JObj []) \<and>
      length (fetch_calls s') = length (fetch_calls after_first_call) + 1"
    by simp
  from on hit 1 3 2 ok 4 show ?thesis by blast
qed

section \<open>What is stored\<close>

text \<open>
  C8. Whether execute stores an entry depends on the cache option and on the response
  being successful, not on the classification. With caching disabled, execute leaves the
  cache as it was. With caching enabled, a call that returns the object of a successful
  response has stored the payload under the hook's key with the classification it
  returns, whatever that classification is (no-store and no-cache included). A call that
  ends in any other way stores nothing: the cache is as the read at the start of the call
  left it.
\<close>

theorem storage_by_flag_and_success:
  assumes "execute cfg env now rb rh s = (c, s')"
  shows "(\<not> cache cfg \<longrightarrow> cacheRef s' = cacheRef s) \<and>
         (cache cfg \<longrightarrow>
            (\<forall>res. c = Returns res \<and> field res ''fromCache'' = Some (JBool False) \<longrightarrow>
               (\<exists>d st t. field res ''data'' = Some d \<and> field res ''cacheStatus'' = Some (JStr st) \<and>
                  field (cacheRef s') (getCacheKey cfg) =
                    Some \<lparr>ce_data = d, ce_timestamp = t, ce_status = st\<rparr>))) \<and>
         ((\<forall>res. c = Returns res \<longrightarrow> field res ''fromCache'' \<noteq> Some (JBool False)) \<longrightarrow>
            cacheRef s' = cacheRef (snd (getCachedData cfg now s)))"
proof -
  obtain cr0 t0 where g: "getCachedData cfg now s = (cr0, t0)"
    by (cases "getCachedData cfg now s") auto
  show ?thesis
  proof (cases cr0)
    case (Some x)
    with g execute_hit [of cfg now s x t0 env rb rh] getCachedData_Some [of cfg now s x t0] assms
    show ?thesis by auto
  next
    case None
    with g have g': "getCachedData cfg now s = (None, t0)" by simp
    show ?thesis
    proof (cases "0 \<le> retryCount cfg")
      case False
      with g' assms have "c = ReturnsUndefined \<and> cacheRef s' = cacheRef t0"
        by (auto simp: execute_def execute_begin_def loop_head_def run_Done)
      moreover from g' have "\<not> cache cfg \<longrightarrow> t0 = s"
        by (auto simp: getCachedData_def)
      ultimately show ?thesis using g' by auto
    next
      case True
      from execute_miss_last_step [OF g' True assms]
      obtain q t where q: "in_flight cfg env (length (fetch_calls s)) (length (controllers s)) q t"
        "\<forall>r. q \<noteq> Done r" "cacheRef t = cacheRef t0"
        "resume cfg (fst (env (retries_of q))) (snd (env (retries_of q))) q t = (Done c, s')"
        by blast
      have 1: "\<not> cache cfg \<longrightarrow> cacheRef s' = cacheRef s"
        using resume_cacheRef_disabled [OF _ q(4)] q(3) g' by (auto simp: getCachedData_def)
      have 2: "\<exists>d st t. field res ''data'' = Some d \<and> field res ''cacheStatus'' = Some (JStr st) \<and>
                  field (cacheRef s') (getCacheKey cfg) =
                    Some \<lparr>ce_data = d, ce_timestamp = t, ce_status = st\<rparr>"
        if "cache cfg" "c = Returns res" "field res ''fromCache'' = Some (JBool False)" for res
        using resume_success [OF q(1,2) q(4) [unfolded that(2)] that(3)] that(1)
        by (auto simp: field_obj_set_same)
      have 3: "cacheRef s' = cacheRef (snd (getCachedData cfg now s))"
        if "\<forall>res. c = Returns res \<longrightarrow> field res ''fromCache'' \<noteq> Some (JBool False)"
      proof -
        from resume_settled [OF q(1,2,4)] that
        consider "c = Returns [(''data'', JNull), (''status'', JNull), (''aborted'', JBool True)]"
          | e where "c = Throws e"
          by (auto simp: settled_def)
        then show ?thesis
        proof cases
          case 1
          from resume_returns_aborted [OF q(1,2) q(4) [unfolded 1]] q(3) g' show ?thesis by simp
        next
          case 2
          from resume_throws [OF q(1,2) q(4) [unfolded 2]] q(3) g' show ?thesis by simp
        qed
      qed
      from 1 2 3 show ?thesis by blast
    qed
  qed
qed


theorem storage_by_flag_and_success_witness:
  "cache home_options \<and>
   fst (execute home_options
          (always (Resolves (createMockResponse posts [(''Cache-Control'', ''no-store'')] 200)) 1000)
          0 None None initial_state) =
     Returns [(''data'', posts), (''status'', JNum 200), (''fromCache'', JBool False),
              (''cacheStatus'', JStr ''no-store''),
              (''cacheHeaders'', JObj [(''cacheControl'', JStr ''no-store''), (''etag'', JNull),
                                      (''lastModified'', JNull)])] \<and>
   (\<exists>t. field (cacheRef (snd (execute home_options
          (always (Resolves (createMockResponse posts [(''Cache-Control'', ''no-store'')] 200)) 1000)
          0 None None initial_state))) (getCacheKey home_options) =
        Some \<lparr>ce_data = posts, ce_timestamp = t, ce_status = ''no-store''\<rparr>) \<and>
   \<not> cache (default_options ''/api/posts'') \<and>
   cacheRef (snd (execute (default_options ''/api/posts'')
          (always (Resolves (createMockResponse posts [] 200)) 1000) 0 None None initial_state)) =
     cacheRef initial_state"
proof -
  let ?env = "always (Resolves (createMockResponse posts [(''Cache-Control'', ''no-store'')] 200)) 1000"
  let ?E = "execute home_options ?env 0 None None initial_state"
  let ?res = "[(''data'', posts), (''status'', JNum 200), (''fromCache'', JBool False),
              (''cacheStatus'', JStr ''no-store''),
              (''cacheHeaders'', JObj [(''cacheControl'', JStr ''no-store''), (''etag'', JNull),
                                      (''lastModified'', JNull)])]"
  let ?D = "execute (default_options ''/api/posts'')
          (always (Resolves (createMockResponse posts [] 200)) 1000) 0 None None initial_state"
  have on: "cache home_options" by (simp add: home_options_def)
  have off: "\<not> cache (default_options ''/api/posts'')" by (simp add: default_options_def)
  have v: "fst ?E = Returns ?res" by code_simp
  have h: "?E = (fst ?E, snd ?E)" by simp
  from storage_by_flag_and_success [OF h] on v
  have "\<exists>d st t. field ?res ''data'' = Some d \<and> field ?res ''cacheStatus'' = Some (JStr st) \<and>
      field (cacheRef (snd ?E)) (getCacheKey home_options) =
        Some \<lparr>ce_data = d, ce_timestamp = t, ce_status = st\<rparr>"
    by simp
  then have 1: "\<exists>t. field (cacheRef (snd ?E)) (getCacheKey home_options) =
        Some \<lparr>ce_data = posts, ce_timestamp = t, ce_status = ''no-store''\<rparr>"
    by auto
  have h': "?D = (fst ?D, snd ?D)" by simp
  from storage_by_flag_and_success [OF h'] off
  have 2: "cacheRef (snd ?D) = cacheRef initial_state"
    by simp
  from on v 1 off 2 show ?thesis by blast
qed

section \<open>The cache key\<close>

text \<open>
  C9. The claim says that the key is the same for mappings that are equal as maps, whatever
  the order in which their keys were inserted. The source serialises body and headers with
  JSON.stringify, which writes the entries of an object in the order in which its
  properties are enumerated (names that are array indices first, in ascending numeric
  order, then the other names in the order of their insertion), and nothing sorts them.
  What holds: with method, endpoint and body fixed, two headers objects give the same key
  exactly when their entries, in enumeration order, are the same; the same holds of two
  bodies that are objects with string values, with method, endpoint and headers fixed;
  and for two headers objects none of whose names is an array index, the key is the same
  exactly when they have the same entries in the same insertion order.
\<close>

theorem cache_key_headers_order:
  "(getCacheKey (cfg\<lparr>headers := h1\<rparr>) = getCacheKey (cfg\<lparr>headers := h2\<rparr>) \<longleftrightarrow>
      own_property_order h1 = own_property_order h2) \<and>
   (getCacheKey (cfg\<lparr>body := headers_json b1\<rparr>) = getCacheKey (cfg\<lparr>body := headers_json b2\<rparr>) \<longleftrightarrow>
      own_property_order b1 = own_property_order b2) \<and>
   ((\<forall>k \<in> fst ` set h1 \<union> fst ` set h2. \<not> is_array_index k) \<longrightarrow>
      (getCacheKey (cfg\<lparr>headers := h1\<rparr>) = getCacheKey (cfg\<lparr>headers := h2\<rparr>) \<longleftrightarrow> h1 = h2))"
proof (intro conjI impI)
  show 1: "getCacheKey (cfg\<lparr>headers := h1\<rparr>) = getCacheKey (cfg\<lparr>headers := h2\<rparr>) \<longleftrightarrow>
      own_property_order h1 = own_property_order h2" for h1 h2
    using stringify_headers_iff [of h1 h2] by (simp add: getCacheKey_def)
  show "getCacheKey (cfg\<lparr>body := headers_json b1\<rparr>) = getCacheKey (cfg\<lparr>body := headers_json b2\<rparr>) \<longleftrightarrow>
      own_property_order b1 = own_property_order b2"
    using stringify_headers_iff [of b1 b2] by (simp add: getCacheKey_def)
  assume "\<forall>k \<in> fst ` set h1 \<union> fst ` set h2. \<not> is_array_index k"
  then have "own_property_order h1 = h1" "own_property_order h2 = h2"
    by (simp_all add: own_property_order_plain)
  with 1 [of h1 h2]
  show "getCacheKey (cfg\<lparr>headers := h1\<rparr>) = getCacheKey (cfg\<lparr>headers := h2\<rparr>) \<longleftrightarrow> h1 = h2"
    by simp
qed

theorem cache_key_headers_order_witness:
  "map fst accept_then_lang = [''Accept'', ''Accept-Language''] \<and>
   map fst lang_then_accept = [''Accept-Language'', ''Accept''] \<and>
   \<not> is_array_index ''Accept'' \<and> \<not> is_array_index ''Accept-Language'' \<and>
   accept_then_lang \<noteq> lang_then_accept \<and>
   getCacheKey ((default_options ''/api/posts'')\<lparr>headers := accept_then_lang\<rparr>) \<noteq>
   getCacheKey ((default_options ''/api/posts'')\<lparr>headers := lang_then_accept\<rparr>) \<and>
   own_property_order [(''2'', ''b''), (''1'', ''a'')] = own_property_order [(''1'', ''a''), (''2'', ''b'')] \<and>
   getCacheKey ((default_options ''/api/posts'')\<lparr>headers := [(''2'', ''b''), (''1'', ''a'')]\<rparr>) =
   getCacheKey ((default_options ''/api/posts'')\<lparr>headers := [(''1'', ''a''), (''2'', ''b'')]\<rparr>)"
proof -
  let ?cfg = "default_options ''/api/posts''"
  have keys: "map fst accept_then_lang = [''Accept'', ''Accept-Language'']"
    "map fst lang_then_accept = [''Accept-Language'', ''Accept'']"
    by (simp_all add: accept_then_lang_def lang_then_accept_def)
  have plain: "\<not> is_array_index ''Accept''" "\<not> is_array_index ''Accept-Language''"
    by (simp_all add: is_array_index_def is_digit_def)
  have "fst ` set accept_then_lang \<union> fst ` set lang_then_accept = {''Accept'', ''Accept-Language''}"
    by (auto simp: accept_then_lang_def lang_then_accept_def)
  with plain have names: "\<forall>k \<in> fst ` set accept_then_lang \<union> fst ` set lang_then_accept. \<not> is_array_index k"
    by simp
  have ne: "accept_then_lang \<noteq> lang_then_accept"
    by (simp add: accept_then_lang_def lang_then_accept_def)
  from cache_key_headers_order [where cfg = ?cfg and ?h1.0 = accept_then_lang and ?h2.0 = lang_then_accept]
    names ne
  have 1: "getCacheKey (?cfg\<lparr>headers := accept_then_lang\<rparr>) \<noteq>
      getCacheKey (?cfg\<lparr>headers := lang_then_accept\<rparr>)"
    by blast
  have same: "own_property_order [(''2'', ''b''), (''1'', ''a'')] =
      own_property_order [(''1'', ''a''), (''2'', ''b'')]"
    by code_simp
  from cache_key_headers_order [where cfg = ?cfg and ?h1.0 = "[(''2'', ''b''), (''1'', ''a'')]"
      and ?h2.0 = "[(''1'', ''a''), (''2'', ''b'')]"] same
  have 2: "getCacheKey (?cfg\<lparr>headers := [(''2'', ''b''), (''1'', ''a'')]\<rparr>) =
      getCacheKey (?cfg\<lparr>headers := [(''1'', ''a''), (''2'', ''b'')]\<rparr>)"
    by blast
  from keys plain ne 1 same 2 show ?thesis by blast
qed

text \<open>Two headers objects that are equal as maps and differ in insertion order get
  different keys.\<close>

theorem cache_key_order_counterexample:
  "map_of accept_then_lang = map_of lang_then_accept \<and>
   getCacheKey ((default_options ''/api/posts'')\<lparr>headers := accept_then_lang\<rparr>) \<noteq>
   getCacheKey ((default_options ''/api/posts'')\<lparr>headers := lang_then_accept\<rparr>)"
proof
  show "map_of accept_then_lang = map_of lang_then_accept"
    by (auto simp: accept_then_lang_def lang_then_accept_def fun_eq_iff)
  show "getCacheKey ((default_options ''/api/posts'')\<lparr>headers := accept_then_lang\<rparr>) \<noteq>
   getCacheKey ((default_options ''/api/posts'')\<lparr>headers := lang_then_accept\<rparr>)"
    by code_simp
qed

section \<open>The error cell on a cache hit\<close>

text \<open>
  C10. An execute call served from the cache sets data and status (to 200) and nothing else:
  the error cell and loading keep their values, so an error message left by an earlier
  call stays while the cached payload is returned. The error cell is set to null only
  when the call is not served from the cache, at the start of its way to the network.
\<close>

theorem cache_hit_keeps_error:
  "(\<forall>e. cache cfg \<and> field (cacheRef s) (getCacheKey cfg) = Some e \<and>
        now - ce_timestamp e < cacheTime cfg \<longrightarrow>
      (\<exists>res s'. execute cfg env now rb rh s = (Returns res, s') \<and>
         field res ''fromCache'' = Some (JBool True) \<and>
         field res ''data'' = Some (ce_data e) \<and>
         field res ''status'' = Some (JNum 200) \<and>
         error s' = error s \<and> loading s' = loading s \<and>
         data s' = ce_data e \<and> status s' = Some 200 \<and>
         fetch_calls s' = fetch_calls s)) \<and>
   (fst (getCachedData cfg now s) = None \<longrightarrow>
      error (snd (execute_begin cfg now rb rh s)) = None)"
proof (intro conjI allI impI)
  fix e
  assume "cache cfg \<and> field (cacheRef s) (getCacheKey cfg) = Some e \<and>
        now - ce_timestamp e < cacheTime cfg"
  then have "getCachedData cfg now s =
           (Some \<lparr>cr_data = ce_data e, cr_status = ''cached'', cr_timestamp = ce_timestamp e,
                  cr_age = now - ce_timestamp e\<rparr>, s)"
    by (simp add: getCachedData_hit)
  from execute_hit [OF this]
  show "\<exists>res s'. execute cfg env now rb rh s = (Returns res, s') \<and>
         field res ''fromCache'' = Some (JBool True) \<and>
         field res ''data'' = Some (ce_data e) \<and>
         field res ''status'' = Some (JNum 200) \<and>
         error s' = error s \<and> loading s' = loading s \<and>
         data s' = ce_data e \<and> status s' = Some 200 \<and>
         fetch_calls s' = fetch_calls s"
    by simp
next
  assume miss: "fst (getCachedData cfg now s) = None"
  then obtain s0 where "getCachedData cfg now s = (None, s0)"
    by (cases "getCachedData cfg now s") auto
  then show "error (snd (execute_begin cfg now rb rh s)) = None"
    by (simp add: execute_begin_def loop_head_def Let_def)
qed

theorem cache_hit_keeps_error_witness:
  "(cache (home_options\<lparr>retryCount := 0\<rparr>) \<and>
    field (cacheRef failed_after_cached) (getCacheKey (home_options\<lparr>retryCount := 0\<rparr>)) =
      Some \<lparr>ce_data = posts, ce_timestamp = 6, ce_status = ''fresh''\<rparr>) \<and>
   error failed_after_cached = Some ''HTTP error! status: 500'' \<and>
   (\<exists>res s'. execute (home_options\<lparr>retryCount := 0\<rparr>) (always (Rejects abortError) 10) 10 None None
                failed_after_cached = (Returns res, s') \<and>
      field res ''fromCache'' = Some (JBool True) \<and>
      field res ''data'' = Some posts \<and>
      status s' = Some 200 \<and>
      error s' = Some ''HTTP error! status: 500'') \<and>
   fst (getCachedData (home_options\<lparr>retryCount := 0\<rparr>) 0 initial_state) = None \<and>
   error (snd (execute_begin (home_options\<lparr>retryCount := 0\<rparr>) 0 None None initial_state)) = None"
proof -
  let ?cfg = "home_options\<lparr>retryCount := 0\<rparr>"
  let ?e = "\<lparr>ce_data = posts, ce_timestamp = 6, ce_status = ''fresh''\<rparr>"
  have on: "cache ?cfg" by (simp add: home_options_def)
  have hit: "field (cacheRef failed_after_cached) (getCacheKey ?cfg) = Some ?e"
    by code_simp
  have err: "error failed_after_cached = Some ''HTTP error! status: 500''"
    by code_simp
  have t: "10 - ce_timestamp ?e < cacheTime ?cfg"
    by (simp add: home_options_def default_options_def)
  have miss: "fst (getCachedData ?cfg 0 initial_state) = None"
    by (simp add: getCachedData_def initial_state_def)
  note th = cache_hit_keeps_error [where cfg = ?cfg and rb = None and rh = None]
  from th [where s = failed_after_cached and now = 10 and env = "always (Rejects abortError) 10"]
    on hit t err
  have 1: "\<exists>res s'. execute ?cfg (always (Rejects abortError) 10) 10 None None
                failed_after_cached = (Returns res, s') \<and>
      field res ''fromCache'' = Some (JBool True) \<and>
      field res ''data'' = Some posts \<and>
      status s' = Some 200 \<and>
      error s' = Some ''HTTP error! status: 500''"
    by fastforce
  from th [where s = initial_state and now = 0] miss
  have 2: "error (snd (execute_begin ?cfg 0 None None initial_state)) = None"
    by simp
  from on hit err 1 miss 2 show ?thesis by blast
qed

end
